theory Spec2Isabelle
  imports Main
begin

section \<open>Go library functions used by the provider\<close>

text \<open>
  The provider in \<^verbatim>\<open>pkg/providers/tencent/tencent.go\<close> uses a handful of functions of
  the Go standard library on strings. Strings are byte lists. A byte below \<open>0x80\<close>
  (\<^verbatim>\<open>utf8.RuneSelf\<close>) is an ASCII character; the case mapping of the ASCII letters is
  written out here.
\<close>

definition is_ascii :: "char \<Rightarrow> bool" where
  "is_ascii c = (of_char c < (128 :: nat))"

definition upper_char :: "char \<Rightarrow> char" where
  "upper_char c =
     (case map_of (zip ''abcdefghijklmnopqrstuvwxyz'' ''ABCDEFGHIJKLMNOPQRSTUVWXYZ'') c of
        None \<Rightarrow> c
      | Some u \<Rightarrow> u)"

fun Split :: "string \<Rightarrow> char \<Rightarrow> string list" where
  "Split [] d = [[]]"
| "Split (c # cs) d =
     (if c = d then [] # Split cs d
      else (case Split cs d of [] \<Rightarrow> [[c]] | x # xs \<Rightarrow> (c # x) # xs))"



definition digit_of :: "char \<Rightarrow> nat option" where
  "digit_of c = map_of (zip ''0123456789'' [0, 1, 2, 3, 4, 5, 6, 7, 8, 9]) c"

fun digits_value :: "nat \<Rightarrow> string \<Rightarrow> nat option" where
  "digits_value acc [] = Some acc"
| "digits_value acc (c # cs) =
     (case digit_of c of None \<Rightarrow> None | Some d \<Rightarrow> digits_value (acc * 10 + d) cs)"

text \<open>
  \<^verbatim>\<open>strconv.Atoi\<close> returns a value and an error flag. A syntax error gives the value 0;
  a number outside the 64-bit range gives the nearest bound, with the error set.
\<close>

definition Atoi :: "string \<Rightarrow> int \<times> bool" where
  "Atoi s =
     (case s of
        [] \<Rightarrow> (0, True)
      | c # cs \<Rightarrow>
          (let neg = (c = CHR ''-'');
               body = (if c = CHR ''-'' \<or> c = CHR ''+'' then cs else s)
           in if body = [] then (0, True)
              else (case digits_value 0 body of
                      None \<Rightarrow> (0, True)
                    | Some n \<Rightarrow>
                        if neg then (if n > 2 ^ 63 then (- (2 ^ 63), True) else (- int n, False))
                        else (if n \<ge> 2 ^ 63 then (2 ^ 63 - 1, True) else (int n, False)))))"

section \<open>Data model\<close>

text \<open>Go errors, as values. Each constructor stands for one \<^verbatim>\<open>fmt.Errorf\<close> site or for an
  error passed up from the SDK.\<close>

datatype error =
    SdkError string
  | PreflightError string
  | RunInstancesError
  | TerminateError
  | DeleteClusterError
  | ListInstancesError
  | LocalError string
  | TaskFailed nat
  | ConvertTaskID string
  | ErrWaitTimeout string
  | Panic string

record ssh =
  User :: string
  Port :: string
  Password :: string
  SSHKeyPath :: string

text \<open>\<^verbatim>\<open>types.Node\<close>. A slice that the code compares with \<^verbatim>\<open>nil\<close> is an option.\<close>

record node =
  Master :: bool
  RollBack :: bool
  Current :: bool
  InstanceID :: string
  InstanceStatus :: string
  InternalIPAddress :: "string list"
  PublicIPAddress :: "string list option"
  EipAllocationIds :: "string list"
  SSH :: ssh

definition empty_ssh :: ssh where
  "empty_ssh = \<lparr>User = [], Port = [], Password = [], SSHKeyPath = []\<rparr>"

text \<open>The zero value of \<^verbatim>\<open>types.Node\<close>, which a composite literal fills in for the fields
  it does not name.\<close>

definition zero_node :: node where
  "zero_node = \<lparr>Master = False, RollBack = False, Current = False, InstanceID = [],
     InstanceStatus = [], InternalIPAddress = [], PublicIPAddress = None,
     EipAllocationIds = [], SSH = empty_ssh\<rparr>"

record run_request =
  InstanceCount :: int
  req_Zone :: string
  req_SecurityGroupIds :: "string list"
  req_SubnetId :: string
  req_VpcId :: string
  req_Password :: "string option"
  req_KeyIds :: "string list"
  PublicIpAssigned :: bool
  req_Tags :: "(string \<times> string) list"

text \<open>A filter of a describe request: its name and its values.\<close>

type_synonym filter = "string \<times> string list"

text \<open>\<^verbatim>\<open>cvm.Instance\<close>, the fields the provider reads.\<close>

record cvm_instance =
  InstanceId :: string
  InstanceState :: string
  ins_Tags :: "(string \<times> string) list"
  PrivateIpAddresses :: "string list"
  PublicIpAddresses :: "string list"

record describe_instances_response =
  InstanceSet :: "cvm_instance list"
  TotalCount :: int

text \<open>\<^verbatim>\<open>vpc.Address\<close> and \<^verbatim>\<open>tag.ResourceTag\<close>.\<close>

record address =
  AddressId :: string
  AddressIp :: string

record resource_tag =
  ServiceType :: string
  ResourcePrefix :: string
  ResourceId :: string

text \<open>\<^verbatim>\<open>vpc.SecurityGroupPolicy\<close>. The port and the address block of a rule read from the
  provider are pointers that may be nil.\<close>

record policy =
  Protocol :: string
  pol_Port :: "string option"
  CidrBlock :: "string option"
  Action :: string
  PolicyDescription :: string

record policy_set =
  Ingress :: "policy list option"
  Egress :: "policy list"

record vpc_info =
  VpcId :: string

record subnet_info =
  SubnetId :: string
  sub_VpcId :: string
  sub_CidrBlock :: string

text \<open>The requests sent to the cloud provider, in the order they are issued.\<close>

datatype call =
    CallRunInstances run_request
  | CallDescribeInstances "filter list" "int option"
  | CallTerminateInstances "string list"
  | CallAllocateAddresses int "(string \<times> string) list"
  | CallReleaseAddresses "string list"
  | CallDescribeAddresses "string list" "filter list"
  | CallAssociateAddress string string
  | CallDisassociateAddress string
  | CallDescribeTaskResult nat
  | CallDescribeResourcesByTags "filter list"
  | CallDescribeVpcs "filter list"
  | CallDescribeSubnets "string list" "filter list"
  | CallCreateVpc string string "(string \<times> string) list"
  | CallCreateSubnet string string string string "(string \<times> string) list"
  | CallDescribeSecurityGroupPolicies string
  | CallCreateSecurityGroupPolicies string "policy list" "policy list"

text \<open>
  The cloud provider. Each SDK operation answers from the requests made so far and the
  request at hand, with an error message (\<open>Inl\<close>) or a response (\<open>Inr\<close>). A task id
  comes back as a string; \<^verbatim>\<open>DisassociateAddress\<close> may answer without one.
\<close>

record provider =
  RunInstances :: "call list \<Rightarrow> run_request \<Rightarrow> string + string list"
  DescribeInstances ::
    "call list \<Rightarrow> filter list \<Rightarrow> int option \<Rightarrow> string + describe_instances_response"
  TerminateInstances :: "call list \<Rightarrow> string list \<Rightarrow> string option"
  AllocateAddresses ::
    "call list \<Rightarrow> int \<Rightarrow> (string \<times> string) list \<Rightarrow> string + (string list \<times> string)"
  ReleaseAddresses :: "call list \<Rightarrow> string list \<Rightarrow> string + string"
  DescribeAddresses ::
    "call list \<Rightarrow> string list \<Rightarrow> filter list \<Rightarrow> string + address list option"
  AssociateAddress :: "call list \<Rightarrow> string \<Rightarrow> string \<Rightarrow> string + string"
  DisassociateAddress :: "call list \<Rightarrow> string \<Rightarrow> string + string option"
  DescribeTaskResult :: "call list \<Rightarrow> nat \<Rightarrow> string + string"
  DescribeResourcesByTags :: "call list \<Rightarrow> filter list \<Rightarrow> string + resource_tag list"
  DescribeVpcs :: "call list \<Rightarrow> filter list \<Rightarrow> string + vpc_info list"
  DescribeSubnets ::
    "call list \<Rightarrow> string list \<Rightarrow> filter list \<Rightarrow> string + subnet_info list option"
  CreateVpc :: "call list \<Rightarrow> string \<Rightarrow> string \<Rightarrow> (string \<times> string) list \<Rightarrow> string + string"
  CreateSubnet ::
    "call list \<Rightarrow> string \<Rightarrow> string \<Rightarrow> string \<Rightarrow> string \<Rightarrow> (string \<times> string) list
       \<Rightarrow> string + string"
  DescribeSecurityGroupPolicies :: "call list \<Rightarrow> string \<Rightarrow> string + policy_set option"
  CreateSecurityGroupPolicies ::
    "call list \<Rightarrow> string \<Rightarrow> policy list \<Rightarrow> policy list \<Rightarrow> string option"

text \<open>
  The collaborators on the local machine: creating the SDK clients, the cluster's
  configuration and state files, its key folder. Each gives an error message or none.
\<close>

record host =
  AskForConfirmation :: bool
  GetLogFile :: "string \<Rightarrow> string option"
  NewClient :: "string \<Rightarrow> string option"
  UploadKeyPair :: "node \<Rightarrow> string \<Rightarrow> string option"
  OverwriteCfg :: "string \<Rightarrow> string option"
  DeleteState :: "string \<Rightarrow> string option"
  RemoveAll :: "string \<Rightarrow> string option"

text \<open>
  What the provider reads from outside its file, as parameters of the model: constants
  of the packages \<^verbatim>\<open>pkg/common\<close> and \<^verbatim>\<open>pkg/types/tencent\<close>, and the case tables of Go's
  package \<^verbatim>\<open>unicode\<close>. The tables come in through the two functions that consult them:
  \<open>unicode_ToUpper\<close> is \<^verbatim>\<open>strings.Map(unicode.ToUpper, s)\<close>, and \<open>unicode_EqualFold\<close> is
  the rune-by-rune comparison of \<^verbatim>\<open>strings.EqualFold\<close> that starts at a byte outside ASCII.
\<close>

record pkg_consts =
  Backoff_Steps :: nat
  Running :: string
  Success :: string
  Failed :: string
  StatusPending :: string
  StatusRunning :: string
  TagClusterPrefix :: string
  ServiceTypeEIP :: string
  ResourcePrefixEIP :: string
  unicode_ToUpper :: "string \<Rightarrow> string"
  unicode_EqualFold :: "string \<Rightarrow> string \<Rightarrow> bool"

text \<open>
  \<^verbatim>\<open>strings.ToUpper\<close>: a string of ASCII bytes is mapped byte by byte; any other string
  goes through the case tables.
\<close>

definition ToUpper :: "pkg_consts \<Rightarrow> string \<Rightarrow> string" where
  "ToUpper K s = (if list_all is_ascii s then map upper_char s else unicode_ToUpper K s)"

text \<open>
  \<^verbatim>\<open>strings.EqualFold\<close>: the strings are compared from the left. Two ASCII bytes match
  when they are equal or are the two cases of one letter; a mismatch ends the comparison.
  At the first position where either string has a byte outside ASCII, what is left of
  both strings is compared through the case tables. When one string ends, the strings
  are equal under folding if the other ends too.
\<close>

fun EqualFold :: "pkg_consts \<Rightarrow> string \<Rightarrow> string \<Rightarrow> bool" where
  "EqualFold K [] t = (t = [])"
| "EqualFold K (x # xs) [] = False"
| "EqualFold K (x # xs) (y # ys) =
     (if is_ascii x \<and> is_ascii y
      then upper_char x = upper_char y \<and> EqualFold K xs ys
      else unicode_EqualFold K (x # xs) (y # ys))"

text \<open>The receiver \<^verbatim>\<open>p *Tencent\<close>: metadata, options, status, whether the client \<^verbatim>\<open>p.c\<close> is
  set, the node registry \<^verbatim>\<open>p.m\<close> (a \<^verbatim>\<open>sync.Map\<close>, here the entries in iteration order)
  and the requests made through the clients.\<close>

record tencent =
  Name :: string
  Metadata_Master :: string
  Metadata_Worker :: string
  UI :: bool
  Cluster :: bool
  DataStore :: string
  MasterExtraArgs :: string
  Network :: string
  CloudControllerManager :: bool
  Region :: string
  Zone :: string
  KeyIds :: string
  VpcID :: string
  SubnetID :: string
  SecurityGroupIds :: string
  PublicIPAssignedEIP :: bool
  NetworkRouteTableName :: string
  Tags :: "(string \<times> string) list"
  MasterNodes :: "node list"
  WorkerNodes :: "node list"
  p_c :: bool
  m :: "(string \<times> node) list"
  trace :: "call list"

section \<open>The node registry\<close>

fun Store :: "(string \<times> node) list \<Rightarrow> string \<Rightarrow> node \<Rightarrow> (string \<times> node) list" where
  "Store [] k v = [(k, v)]"
| "Store ((k', v') # r) k v = (if k' = k then (k, v) # r else (k', v') # Store r k v)"

definition Load :: "(string \<times> node) list \<Rightarrow> string \<Rightarrow> node option" where
  "Load r k = map_of r k"

section \<open>Waiting for an asynchronous task\<close>

text \<open>
  Modelled from the spec: \<^verbatim>\<open>wait.ExponentialBackoff\<close> of the Kubernetes client library,
  the poll-with-backoff primitive of section 4.3. The condition is called at most
  \<open>steps\<close> times; the loop stops at the first call that reports done or an error, and
  gives the timeout error when the attempts are used up. Sleeping is not modelled.
\<close>

fun ExponentialBackoff ::
  "nat \<Rightarrow> error \<Rightarrow> ('s \<Rightarrow> (bool \<times> error option) \<times> 's) \<Rightarrow> 's \<Rightarrow> error option \<times> 's" where
  "ExponentialBackoff 0 tmo cond s = (Some tmo, s)"
| "ExponentialBackoff (Suc n) tmo cond s =
     (case cond s of
        ((ok, err), s') \<Rightarrow>
          if err \<noteq> None \<or> ok then (err, s') else ExponentialBackoff n tmo cond s')"

definition record_call :: "call \<Rightarrow> tencent \<Rightarrow> tencent" where
  "record_call c p = p\<lparr>trace := trace p @ [c]\<rparr>"

text \<open>The condition function of \<^verbatim>\<open>describeVpcTaskResult\<close>.\<close>

definition describeVpcTaskResult_poll ::
  "pkg_consts \<Rightarrow> provider \<Rightarrow> nat \<Rightarrow> tencent \<Rightarrow> (bool \<times> error option) \<times> tencent" where
  "describeVpcTaskResult_poll K P taskID p =
     (let response = DescribeTaskResult P (trace p) taskID;
          p' = record_call (CallDescribeTaskResult taskID) p
      in case response of
           Inl err \<Rightarrow> ((False, None), p')
         | Inr result \<Rightarrow>
             (let u = ToUpper K result
              in if u = Running K then ((False, None), p')
                 else if u = Success K then ((True, None), p')
                 else if u = Failed K then ((True, Some (TaskFailed taskID)), p')
                 else ((True, None), p')))"

definition describeVpcTaskResult ::
  "pkg_consts \<Rightarrow> provider \<Rightarrow> nat \<Rightarrow> tencent \<Rightarrow> error option \<times> tencent" where
  "describeVpcTaskResult K P taskID p =
     ExponentialBackoff (Backoff_Steps K) (ErrWaitTimeout ''describeVpcTaskResult'')
       (describeVpcTaskResult_poll K P taskID) p"

text \<open>The three outcomes of a poll, as section 4.3 names them.\<close>

datatype outcome = NotYetDone | Done | TerminalFailure error

fun outcome_of :: "bool \<times> error option \<Rightarrow> outcome" where
  "outcome_of (ok, Some e) = TerminalFailure e"
| "outcome_of (True, None) = Done"
| "outcome_of (False, None) = NotYetDone"

section \<open>Launching instances\<close>

definition instance_tags :: "pkg_consts \<Rightarrow> tencent \<Rightarrow> bool \<Rightarrow> (string \<times> string) list" where
  "instance_tags K p master =
     [(''autok3s'', ''true''), (''cluster'', TagClusterPrefix K @ Name p)] @ Tags p @
     [(if master then ''master'' else ''worker'', ''true'')]"

definition runInstances_request ::
  "pkg_consts \<Rightarrow> tencent \<Rightarrow> int \<Rightarrow> bool \<Rightarrow> string \<Rightarrow> run_request" where
  "runInstances_request K p num master password =
     \<lparr>InstanceCount = num,
      req_Zone = Zone p,
      req_SecurityGroupIds = Split (SecurityGroupIds p) CHR '','',
      req_SubnetId = SubnetID p,
      req_VpcId = VpcID p,
      req_Password = (if password \<noteq> [] then Some password else None),
      req_KeyIds = (if KeyIds p \<noteq> [] then [KeyIds p] else []),
      PublicIpAssigned = (\<not> PublicIPAssignedEIP p),
      req_Tags = instance_tags K p master\<rparr>"

definition launched_node :: "pkg_consts \<Rightarrow> bool \<Rightarrow> string \<Rightarrow> node" where
  "launched_node K master ident =
     zero_node\<lparr>Master := master, RollBack := True, InstanceID := ident,
       InstanceStatus := StatusPending K\<rparr>"

definition store_launched ::
  "pkg_consts \<Rightarrow> bool \<Rightarrow> (string \<times> node) list \<Rightarrow> string list \<Rightarrow> (string \<times> node) list" where
  "store_launched K master r ids = foldl (\<lambda>r ident. Store r ident (launched_node K master ident)) r ids"

definition runInstances ::
  "pkg_consts \<Rightarrow> provider \<Rightarrow> int \<Rightarrow> bool \<Rightarrow> string \<Rightarrow> tencent \<Rightarrow> error option \<times> tencent" where
  "runInstances K P num master password p =
     (let request = runInstances_request K p num master password;
          response = RunInstances P (trace p) request;
          p' = record_call (CallRunInstances request) p
      in case response of
           Inl err \<Rightarrow> (Some RunInstancesError, p')
         | Inr ids \<Rightarrow>
             if int (length ids) \<noteq> num then (Some RunInstancesError, p')
             else (None, p'\<lparr>m := store_launched K master (m p') ids\<rparr>))"

section \<open>Floating addresses\<close>

text \<open>\<^verbatim>\<open>strconv.ParseUint(s, 10, 64)\<close>: decimal digits only, below \<open>2 ^ 64\<close>.\<close>

definition ParseUint :: "string \<Rightarrow> nat option" where
  "ParseUint s =
     (if s = [] then None
      else (case digits_value 0 s of
              None \<Rightarrow> None
            | Some n \<Rightarrow> if n < 2 ^ 64 then Some n else None))"

definition cluster_tags :: "pkg_consts \<Rightarrow> tencent \<Rightarrow> (string \<times> string) list" where
  "cluster_tags K p = [(''autok3s'', ''true''), (''cluster'', TagClusterPrefix K @ Name p)]"

definition allocateAddresses ::
  "pkg_consts \<Rightarrow> provider \<Rightarrow> int \<Rightarrow> tencent \<Rightarrow> (error + string list \<times> nat) \<times> tencent" where
  "allocateAddresses K P num p =
     (let response = AllocateAddresses P (trace p) num (cluster_tags K p);
          p' = record_call (CallAllocateAddresses num (cluster_tags K p)) p
      in case response of
           Inl err \<Rightarrow> (Inl (SdkError err), p')
         | Inr (addressSet, taskIdStr) \<Rightarrow>
             (case ParseUint taskIdStr of
                None \<Rightarrow> (Inl (ConvertTaskID taskIdStr), p')
              | Some taskID \<Rightarrow> (Inr (addressSet, taskID), p')))"

definition releaseAddresses ::
  "provider \<Rightarrow> string list \<Rightarrow> tencent \<Rightarrow> (error + nat) \<times> tencent" where
  "releaseAddresses P addressIds p =
     (let response = ReleaseAddresses P (trace p) addressIds;
          p' = record_call (CallReleaseAddresses addressIds) p
      in case response of
           Inl err \<Rightarrow> (Inl (SdkError err), p')
         | Inr taskIdStr \<Rightarrow>
             (case ParseUint taskIdStr of
                None \<Rightarrow> (Inl (ConvertTaskID taskIdStr), p')
              | Some taskID \<Rightarrow> (Inr taskID, p')))"

definition describeAddresses_request :: "string list \<Rightarrow> string list \<Rightarrow> string list \<times> filter list" where
  "describeAddresses_request addressIds instanceIds =
     (if length instanceIds \<le> 0 then (addressIds, [])
      else ([], [(''instance-id'', instanceIds)] @
                (if length addressIds > 0 then [(''address-id'', addressIds)] else [])))"

definition describeAddresses ::
  "provider \<Rightarrow> string list \<Rightarrow> string list \<Rightarrow> tencent
     \<Rightarrow> (error + address list option) \<times> tencent" where
  "describeAddresses P addressIds instanceIds p =
     (let request = describeAddresses_request addressIds instanceIds;
          response = DescribeAddresses P (trace p) (fst request) (snd request);
          p' = record_call (CallDescribeAddresses (fst request) (snd request)) p
      in case response of
           Inl err \<Rightarrow> (Inl (SdkError err), p')
         | Inr addressSet \<Rightarrow> (Inr addressSet, p'))"

definition associateAddress ::
  "provider \<Rightarrow> string \<Rightarrow> string \<Rightarrow> tencent \<Rightarrow> (error + nat) \<times> tencent" where
  "associateAddress P addressID instanceID p =
     (let response = AssociateAddress P (trace p) addressID instanceID;
          p' = record_call (CallAssociateAddress addressID instanceID) p
      in case response of
           Inl err \<Rightarrow> (Inl (SdkError err), p')
         | Inr taskIdStr \<Rightarrow>
             (case ParseUint taskIdStr of
                None \<Rightarrow> (Inl (ConvertTaskID taskIdStr), p')
              | Some taskID \<Rightarrow> (Inr taskID, p')))"

text \<open>A response of \<^verbatim>\<open>DisassociateAddress\<close> without a task id gives the task id 0.\<close>

definition disassociateAddress ::
  "provider \<Rightarrow> string \<Rightarrow> tencent \<Rightarrow> (error + nat) \<times> tencent" where
  "disassociateAddress P addressID p =
     (let response = DisassociateAddress P (trace p) addressID;
          p' = record_call (CallDisassociateAddress addressID) p
      in case response of
           Inl err \<Rightarrow> (Inl (SdkError err), p')
         | Inr None \<Rightarrow> (Inr 0, p')
         | Inr (Some taskIdStr) \<Rightarrow>
             (case ParseUint taskIdStr of
                None \<Rightarrow> (Inl (ConvertTaskID taskIdStr), p')
              | Some taskID \<Rightarrow> (Inr taskID, p')))"

text \<open>
  \<^verbatim>\<open>sync.Map.Range\<close>: the function is called on the entries in turn and stops the
  iteration by returning false. The flag of the result tells whether the iteration ran
  to the end. A panic inside the function ends the run, in the state reached by then.
\<close>

fun Range_entries ::
  "('a \<Rightarrow> 's \<Rightarrow> error \<times> 's + bool \<times> 's) \<Rightarrow> 'a list \<Rightarrow> 's \<Rightarrow> error \<times> 's + bool \<times> 's" where
  "Range_entries f [] s = Inr (True, s)"
| "Range_entries f (x # xs) s =
     (case f x s of
        Inl e \<Rightarrow> Inl e
      | Inr (go_on, s') \<Rightarrow> if go_on then Range_entries f xs s' else Inr (False, s'))"

text \<open>The function that \<^verbatim>\<open>allocateEIPForInstance\<close> passes to \<^verbatim>\<open>Range\<close>. It works on the
  addresses still unused, the task ids collected so far and the receiver. With no
  address left, \<^verbatim>\<open>eipAddresses[0]\<close> panics before anything is changed.\<close>

definition with_eip :: "node \<Rightarrow> address \<Rightarrow> node" where
  "with_eip v a =
     v\<lparr>EipAllocationIds := EipAllocationIds v @ [AddressId a],
       PublicIPAddress := Some (case PublicIPAddress v of None \<Rightarrow> [AddressIp a]
                                | Some ips \<Rightarrow> ips @ [AddressIp a])\<rparr>"

definition associate_visit ::
  "provider \<Rightarrow> bool \<Rightarrow> string \<times> node \<Rightarrow> address list \<times> nat list \<times> tencent
     \<Rightarrow> error \<times> (address list \<times> nat list \<times> tencent)
         + bool \<times> (address list \<times> nat list \<times> tencent)" where
  "associate_visit P master entry st =
     (case st of (eipAddresses, eipIds, p) \<Rightarrow>
        (let v = snd entry
         in if Master v = master \<and> PublicIPAddress v = None then
              (case eipAddresses of
                 [] \<Rightarrow> Inl (Panic ''index out of range'', st)
               | a # rest \<Rightarrow>
                   (let v' = with_eip v a
                    in case associateAddress P (AddressId a) (InstanceID v') p of
                         (Inl err, p') \<Rightarrow> Inr (False, (eipAddresses, eipIds, p'))
                       | (Inr taskID, p') \<Rightarrow>
                           Inr (True, (rest, eipIds @ [taskID],
                                       p'\<lparr>m := Store (m p') (InstanceID v') v'\<rparr>))))
            else Inr (True, st)))"

text \<open>A panic leaves the function with the receiver as the iteration left it: the
  association requests made and the nodes stored before it stay.\<close>

definition allocateEIPForInstance ::
  "pkg_consts \<Rightarrow> provider \<Rightarrow> int \<Rightarrow> bool \<Rightarrow> tencent \<Rightarrow> (error + nat list) \<times> tencent" where
  "allocateEIPForInstance K P num master p =
     (case allocateAddresses K P num p of
        (Inl err, p1) \<Rightarrow> (Inl err, p1)
      | (Inr (eips, taskID), p1) \<Rightarrow>
          (case describeVpcTaskResult K P taskID p1 of
             (Some err, p2) \<Rightarrow> (Inl err, p2)
           | (None, p2) \<Rightarrow>
               (case describeAddresses P eips [] p2 of
                  (Inl err, p3) \<Rightarrow> (Inl err, p3)
                | (Inr None, p3) \<Rightarrow> (Inr [], p3)
                | (Inr (Some eipAddresses), p3) \<Rightarrow>
                    (case Range_entries (associate_visit P master) (m p3) (eipAddresses, [], p3) of
                       Inl (e, (unused, eipIds, p4)) \<Rightarrow> (Inl e, p4)
                     | Inr (finished, (unused, eipIds, p4)) \<Rightarrow> (Inr eipIds, p4)))))"

section \<open>Discovering the cluster's instances\<close>



definition instance_filters :: "pkg_consts \<Rightarrow> tencent \<Rightarrow> filter list" where
  "instance_filters K p =
     [(''tag:autok3s'', [''true'']), (''tag:cluster'', [TagClusterPrefix K @ Name p])]"

text \<open>
  The paging loop of \<^verbatim>\<open>describeInstances\<close>, 20 instances a page: it ends on an error, on
  an empty page, or when the next offset reaches the total the provider reports. A
  provider that never lets it end gives \<open>None\<close>.
\<close>

partial_function (option) describeInstances_loop ::
  "provider \<Rightarrow> filter list \<Rightarrow> int option \<Rightarrow> int \<Rightarrow> cvm_instance list \<Rightarrow> tencent
     \<Rightarrow> ((error + cvm_instance list) \<times> tencent) option" where
  "describeInstances_loop P filters offset index instanceList p =
     (case DescribeInstances P (trace p) filters offset of
        Inl err \<Rightarrow> Some (Inl (SdkError err), record_call (CallDescribeInstances filters offset) p)
      | Inr response \<Rightarrow>
          if InstanceSet response = []
          then Some (Inr instanceList, record_call (CallDescribeInstances filters offset) p)
          else if 20 * index + 20 \<ge> TotalCount response
          then Some (Inr (instanceList @ InstanceSet response),
                     record_call (CallDescribeInstances filters offset) p)
          else describeInstances_loop P filters (Some (20 * index + 20)) (index + 1)
                 (instanceList @ InstanceSet response)
                 (record_call (CallDescribeInstances filters offset) p))"

definition describeInstances ::
  "pkg_consts \<Rightarrow> provider \<Rightarrow> tencent \<Rightarrow> ((error + cvm_instance list) \<times> tencent) option" where
  "describeInstances K P p = describeInstances_loop P (instance_filters K p) None 0 [] p"

definition generateClientSDK :: "host \<Rightarrow> tencent \<Rightarrow> error option \<times> tencent" where
  "generateClientSDK H p =
     (case NewClient H ''cvm'' of
        Some err \<Rightarrow> (Some (LocalError err), p)
      | None \<Rightarrow>
          (case NewClient H ''vpc'' of
             Some err \<Rightarrow> (Some (LocalError err), p\<lparr>p_c := True\<rparr>)
           | None \<Rightarrow>
               (case NewClient H ''tag'' of
                  Some err \<Rightarrow> (Some (LocalError err), p\<lparr>p_c := True\<rparr>)
                | None \<Rightarrow>
                    (case NewClient H ''tke'' of
                       Some err \<Rightarrow> (Some (LocalError err), p\<lparr>p_c := True\<rparr>)
                     | None \<Rightarrow> (None, p\<lparr>p_c := True\<rparr>)))))"

text \<open>\<^verbatim>\<open>IsClusterExist\<close> returns whether instances were found, their ids and an error.\<close>

definition instances_found ::
  "((error + cvm_instance list) \<times> tencent) option
     \<Rightarrow> ((bool \<times> string list \<times> error option) \<times> tencent) option" where
  "instances_found r =
     (case r of
        None \<Rightarrow> None
      | Some (Inl err, p) \<Rightarrow> Some ((False, [], Some err), p)
      | Some (Inr instanceList, p) \<Rightarrow>
          if length instanceList > 0 then Some ((True, map InstanceId instanceList, None), p)
          else Some ((False, [], None), p))"

definition IsClusterExist ::
  "pkg_consts \<Rightarrow> host \<Rightarrow> provider \<Rightarrow> tencent
     \<Rightarrow> ((bool \<times> string list \<times> error option) \<times> tencent) option" where
  "IsClusterExist K H P p =
     (if \<not> p_c p
      then (case generateClientSDK H p of
              (Some err, p1) \<Rightarrow> Some ((False, [], Some err), p1)
            | (None, p1) \<Rightarrow> instances_found (describeInstances K P p1))
      else instances_found (describeInstances K P p))"

section \<open>Preflight validation\<close>


section \<open>Deleting a cluster\<close>

definition terminateInstances ::
  "provider \<Rightarrow> string list \<Rightarrow> tencent \<Rightarrow> error option \<times> tencent" where
  "terminateInstances P instanceIds p =
     (case TerminateInstances P (trace p) instanceIds of
        Some err \<Rightarrow> (Some TerminateError, record_call (CallTerminateInstances instanceIds) p)
      | None \<Rightarrow> (None, record_call (CallTerminateInstances instanceIds) p))"

definition describeResourcesByTags ::
  "pkg_consts \<Rightarrow> provider \<Rightarrow> tencent \<Rightarrow> (resource_tag list \<times> error option) \<times> tencent" where
  "describeResourcesByTags K P p =
     (let filters = [(''autok3s'', [''true'']), (''cluster'', [TagClusterPrefix K @ Name p])]
      in case DescribeResourcesByTags P (trace p) filters of
           Inl err \<Rightarrow> (([], Some (SdkError err)), record_call (CallDescribeResourcesByTags filters) p)
         | Inr rows \<Rightarrow> ((rows, None), record_call (CallDescribeResourcesByTags filters) p))"

text \<open>The first loop of \<^verbatim>\<open>deleteCluster\<close>, over the tagged resources: every tagged address
  is disassociated and kept for the release; a task id is kept unless it is 0, which is
  also what a failed call gives.\<close>

fun disassociate_tagged ::
  "pkg_consts \<Rightarrow> provider \<Rightarrow> resource_tag list \<Rightarrow> string list \<Rightarrow> nat list \<Rightarrow> tencent
     \<Rightarrow> string list \<times> nat list \<times> tencent" where
  "disassociate_tagged K P [] eipIds taskIds p = (eipIds, taskIds, p)"
| "disassociate_tagged K P (resource # rest) eipIds taskIds p =
     (if EqualFold K (ServiceTypeEIP K) (ServiceType resource)
         \<and> EqualFold K (ResourcePrefixEIP K) (ResourcePrefix resource)
         \<and> ResourceId resource \<noteq> []
      then (case disassociateAddress P (ResourceId resource) p of
              (r, p') \<Rightarrow>
                (let taskID = (case r of Inl err \<Rightarrow> 0 | Inr t \<Rightarrow> t)
                 in disassociate_tagged K P rest (eipIds @ [ResourceId resource])
                      (if taskID \<noteq> 0 then taskIds @ [taskID] else taskIds) p'))
      else disassociate_tagged K P rest eipIds taskIds p)"

text \<open>The loop that waits for each task in turn; a failed wait is logged only.\<close>

fun wait_tasks :: "pkg_consts \<Rightarrow> provider \<Rightarrow> nat list \<Rightarrow> tencent \<Rightarrow> tencent" where
  "wait_tasks K P [] p = p"
| "wait_tasks K P (taskID # rest) p = wait_tasks K P rest (snd (describeVpcTaskResult K P taskID p))"

text \<open>Releasing the addresses and waiting for the release task; both errors are logged
  only, and a failed release gives the task id 0 to wait for.\<close>

definition release_and_wait :: "pkg_consts \<Rightarrow> provider \<Rightarrow> string list \<Rightarrow> tencent \<Rightarrow> tencent" where
  "release_and_wait K P eipIds p =
     (case releaseAddresses P eipIds p of
        (r, p') \<Rightarrow> snd (describeVpcTaskResult K P (case r of Inl err \<Rightarrow> 0 | Inr t \<Rightarrow> t) p'))"

text \<open>The end of \<^verbatim>\<open>deleteCluster\<close>: the local configuration, state and key folder.\<close>

definition delete_local :: "host \<Rightarrow> bool \<Rightarrow> tencent \<Rightarrow> error option" where
  "delete_local H f p =
     (if OverwriteCfg H (Name p) \<noteq> None \<and> \<not> f then Some (LocalError (the (OverwriteCfg H (Name p))))
      else if DeleteState H (Name p) \<noteq> None \<and> \<not> f then Some (LocalError (the (DeleteState H (Name p))))
      else if RemoveAll H (Name p) \<noteq> None \<and> \<not> f then Some (LocalError (the (RemoveAll H (Name p))))
      else None)"

text \<open>\<^verbatim>\<open>deleteCluster\<close> from the query of the tagged resources on, for a cluster whose
  instances \<open>ids\<close> were found.\<close>

definition delete_found ::
  "pkg_consts \<Rightarrow> host \<Rightarrow> provider \<Rightarrow> bool \<Rightarrow> string list \<Rightarrow> tencent \<Rightarrow> error option \<times> tencent" where
  "delete_found K H P f ids p =
     (case describeResourcesByTags K P p of
        ((taggedResource, err), p2) \<Rightarrow>
          (case (if length taggedResource > 0
                 then (case disassociate_tagged K P taggedResource [] [] p2 of
                         (eipIds, taskIds, p3) \<Rightarrow> (eipIds, wait_tasks K P taskIds p3))
                 else ([], p2)) of
             (eipIds, p4) \<Rightarrow>
               (let p6 = (if length eipIds > 0 then release_and_wait K P eipIds p4 else p4)
                in case (if err = None \<and> length ids > 0 then terminateInstances P ids p6
                         else (None, p6)) of
                     (Some e, p7) \<Rightarrow> (Some TerminateError, p7)
                   | (None, p7) \<Rightarrow>
                       if err \<noteq> None \<and> \<not> f then (Some DeleteClusterError, p7)
                       else (delete_local H f p7, p7))))"

definition deleteCluster ::
  "pkg_consts \<Rightarrow> host \<Rightarrow> provider \<Rightarrow> bool \<Rightarrow> tencent \<Rightarrow> (error option \<times> tencent) option" where
  "deleteCluster K H P f p =
     (case IsClusterExist K H P p of
        None \<Rightarrow> None
      | Some ((exist, ids, Some err), p1) \<Rightarrow> Some (Some err, p1)
      | Some ((exist, ids, None), p1) \<Rightarrow>
          if \<not> exist
          then (if \<not> f then Some (Some (PreflightError ''cluster name do not exist''), p1)
                else Some (None, p1))
          else Some (delete_found K H P f ids p1))"

definition DeleteK3sCluster ::
  "pkg_consts \<Rightarrow> host \<Rightarrow> provider \<Rightarrow> bool \<Rightarrow> tencent \<Rightarrow> (error option \<times> tencent) option" where
  "DeleteK3sCluster K H P f p =
     (if (if \<not> f then AskForConfirmation H else True)
      then (case GetLogFile H (Name p) of
              Some err \<Rightarrow> Some (Some (LocalError err), p)
            | None \<Rightarrow>
                (case generateClientSDK H p of
                   (Some err, p1) \<Rightarrow> Some (Some err, p1)
                 | (None, p1) \<Rightarrow> deleteCluster K H P f p1))
      else Some (None, p))"

section \<open>Rolling back\<close>

text \<open>The first loop of the address part of \<^verbatim>\<open>Rollback\<close>: every address is kept for the
  release; a task id is kept when the call succeeds.\<close>

fun disassociate_eips ::
  "provider \<Rightarrow> address list \<Rightarrow> string list \<Rightarrow> nat list \<Rightarrow> tencent
     \<Rightarrow> string list \<times> nat list \<times> tencent" where
  "disassociate_eips P [] eipIds taskIds p = (eipIds, taskIds, p)"
| "disassociate_eips P (eip # rest) eipIds taskIds p =
     (case disassociateAddress P (AddressId eip) p of
        (Inl err, p') \<Rightarrow> disassociate_eips P rest (eipIds @ [AddressId eip]) taskIds p'
      | (Inr taskID, p') \<Rightarrow>
          disassociate_eips P rest (eipIds @ [AddressId eip]) (taskIds @ [taskID]) p')"

definition rollback_ids :: "tencent \<Rightarrow> string list" where
  "rollback_ids p = map fst (filter (\<lambda>e. RollBack (snd e)) (m p))"

definition rollback_eips :: "pkg_consts \<Rightarrow> provider \<Rightarrow> string list \<Rightarrow> tencent \<Rightarrow> tencent" where
  "rollback_eips K P ids p =
     (case describeAddresses P [] ids p of
        (r, p1) \<Rightarrow>
          (case disassociate_eips P
                  (case r of Inl err \<Rightarrow> [] | Inr None \<Rightarrow> [] | Inr (Some eips) \<Rightarrow> eips) [] [] p1 of
             (eipIds, taskIds, p2) \<Rightarrow> release_and_wait K P eipIds (wait_tasks K P taskIds p2)))"

definition terminate_poll :: "provider \<Rightarrow> string list \<Rightarrow> tencent \<Rightarrow> (bool \<times> error option) \<times> tencent" where
  "terminate_poll P ids p =
     (case terminateInstances P ids p of
        (Some err, p') \<Rightarrow> ((False, None), p')
      | (None, p') \<Rightarrow> ((True, None), p'))"

definition Rollback :: "pkg_consts \<Rightarrow> host \<Rightarrow> provider \<Rightarrow> tencent \<Rightarrow> error option \<times> tencent" where
  "Rollback K H P p =
     (case GetLogFile H (Name p) of
        Some err \<Rightarrow> (Some (LocalError err), p)
      | None \<Rightarrow>
          (case (if length (rollback_ids p) > 0
                 then ExponentialBackoff 5 (ErrWaitTimeout ''rollback'')
                        (terminate_poll P (rollback_ids p))
                        (if PublicIPAssignedEIP p then rollback_eips K P (rollback_ids p) p else p)
                 else (None, p)) of
             (Some err, p') \<Rightarrow> (Some err, p')
           | (None, p') \<Rightarrow>
               (case RemoveAll H (Name p') of
                  Some err \<Rightarrow> (Some (LocalError err), p')
                | None \<Rightarrow> (None, p'))))"

section \<open>Discovered instances in the registry\<close>

definition is_master :: "pkg_consts \<Rightarrow> (string \<times> string) list \<Rightarrow> bool" where
  "is_master K tags =
     list_ex (\<lambda>t. EqualFold K (fst t) ''master'' \<and> EqualFold K (snd t) ''true'') tags"

text \<open>The address ids of an instance, asked for when floating addresses are enabled.\<close>

definition eips_of_instance ::
  "provider \<Rightarrow> string \<Rightarrow> tencent \<Rightarrow> (error + string list) \<times> tencent" where
  "eips_of_instance P ident p =
     (if PublicIPAssignedEIP p
      then (case describeAddresses P [] [ident] p of
              (Inl err, p') \<Rightarrow> (Inl err, p')
            | (Inr eipInfos, p') \<Rightarrow>
                (Inr (map AddressId (case eipInfos of None \<Rightarrow> [] | Some as \<Rightarrow> as)), p'))
      else (Inr [], p))"

text \<open>The loop of \<^verbatim>\<open>assembleInstanceStatus\<close> over the described instances. An instance in
  the registry is refreshed; an instance that is not is stored as a running node that
  is not for rollback.\<close>

fun assemble_loop ::
  "pkg_consts \<Rightarrow> host \<Rightarrow> provider \<Rightarrow> ssh \<Rightarrow> bool \<Rightarrow> string \<Rightarrow> cvm_instance list \<Rightarrow> tencent
     \<Rightarrow> error option \<times> tencent" where
  "assemble_loop K H P sshv uploadKeyPair publicKey [] p = (None, p)"
| "assemble_loop K H P sshv uploadKeyPair publicKey (status # rest) p =
     (case eips_of_instance P (InstanceId status) p of
        (Inl err, p') \<Rightarrow> (Some err, p')
      | (Inr eip, p') \<Rightarrow>
          (case Load (m p') (InstanceId status) of
             Some v \<Rightarrow>
               (let v1 = v\<lparr>Current := True,
                            InternalIPAddress := PrivateIpAddresses status,
                            PublicIPAddress := Some (PublicIpAddresses status),
                            EipAllocationIds := eip,
                            SSH := sshv\<rparr>
                in if uploadKeyPair
                   then (case UploadKeyPair H v1 publicKey of
                           Some err \<Rightarrow> (Some (LocalError err), p')
                         | None \<Rightarrow>
                             assemble_loop K H P sshv uploadKeyPair publicKey rest
                               (p'\<lparr>m := Store (m p') (InstanceId status)
                                           (v1\<lparr>SSH := (SSH v1)\<lparr>Password := []\<rparr>\<rparr>)\<rparr>))
                   else assemble_loop K H P sshv uploadKeyPair publicKey rest
                          (p'\<lparr>m := Store (m p') (InstanceId status) v1\<rparr>))
           | None \<Rightarrow>
               assemble_loop K H P sshv uploadKeyPair publicKey rest
                 (p'\<lparr>m := Store (m p') (InstanceId status)
                             (zero_node\<lparr>Master := is_master K (ins_Tags status),
                                RollBack := False,
                                InstanceID := InstanceId status,
                                InstanceStatus := StatusRunning K,
                                InternalIPAddress := PrivateIpAddresses status,
                                EipAllocationIds := eip,
                                PublicIPAddress := Some (PublicIpAddresses status)\<rparr>)\<rparr>)))"

text \<open>\<^verbatim>\<open>putil.IsExistedNodes\<close> is not among the sources; it is taken to give the position of
  the first node with the instance id, if there is one.\<close>

fun IsExistedNodes :: "node list \<Rightarrow> string \<Rightarrow> nat option" where
  "IsExistedNodes [] ident = None"
| "IsExistedNodes (n # nodes) ident =
     (if InstanceID n = ident then Some 0
      else (case IsExistedNodes nodes ident of None \<Rightarrow> None | Some i \<Rightarrow> Some (Suc i)))"

definition sync_node :: "ssh option \<Rightarrow> node \<Rightarrow> node list \<Rightarrow> node list" where
  "sync_node sshv v nodes =
     (case IsExistedNodes nodes (InstanceID v) of
        None \<Rightarrow> nodes @ [v]
      | Some index \<Rightarrow>
          (let node = nodes ! index;
               node1 = (case sshv of
                          None \<Rightarrow> node
                        | Some s \<Rightarrow>
                            if User (SSH node) = [] \<or> Port (SSH node) = []
                               \<or> (Password (SSH node) = [] \<and> SSHKeyPath (SSH node) = [])
                            then node\<lparr>SSH := s\<rparr> else node)
           in nodes[index := node1\<lparr>InstanceStatus := InstanceStatus v\<rparr>]))"

definition sync_visit :: "ssh option \<Rightarrow> tencent \<Rightarrow> string \<times> node \<Rightarrow> tencent" where
  "sync_visit sshv p entry =
     (if Master (snd entry) then p\<lparr>MasterNodes := sync_node sshv (snd entry) (MasterNodes p)\<rparr>
      else p\<lparr>WorkerNodes := sync_node sshv (snd entry) (WorkerNodes p)\<rparr>)"

definition syncNodeStatusWithInstance :: "ssh option \<Rightarrow> tencent \<Rightarrow> tencent" where
  "syncNodeStatusWithInstance sshv p = foldl (sync_visit sshv) p (m p)"

definition assembleInstanceStatus ::
  "pkg_consts \<Rightarrow> host \<Rightarrow> provider \<Rightarrow> ssh \<Rightarrow> bool \<Rightarrow> string \<Rightarrow> tencent
     \<Rightarrow> (error option \<times> tencent) option" where
  "assembleInstanceStatus K H P sshv uploadKeyPair publicKey p =
     (case describeInstances K P p of
        None \<Rightarrow> None
      | Some (Inl err, p1) \<Rightarrow> Some (Some ListInstancesError, p1)
      | Some (Inr instanceList, p1) \<Rightarrow>
          (case assemble_loop K H P sshv uploadKeyPair publicKey instanceList p1 of
             (Some err, p2) \<Rightarrow> Some (Some err, p2)
           | (None, p2) \<Rightarrow> Some (None, syncNodeStatusWithInstance (Some sshv) p2)))"

text \<open>The loop of \<^verbatim>\<open>syncClusterInstance\<close>: every described instance is stored anew, with
  the rollback flag left at its zero value; an instance whose addresses cannot be
  queried is skipped.\<close>

fun sync_loop ::
  "pkg_consts \<Rightarrow> provider \<Rightarrow> ssh \<Rightarrow> cvm_instance list \<Rightarrow> tencent \<Rightarrow> tencent" where
  "sync_loop K P sshv [] p = p"
| "sync_loop K P sshv (inst # rest) p =
     (case eips_of_instance P (InstanceId inst) p of
        (Inl err, p') \<Rightarrow> sync_loop K P sshv rest p'
      | (Inr eip, p') \<Rightarrow>
          sync_loop K P sshv rest
            (p'\<lparr>m := Store (m p') (InstanceId inst)
                        (zero_node\<lparr>Master := is_master K (ins_Tags inst),
                           InstanceID := InstanceId inst,
                           InstanceStatus := InstanceState inst,
                           InternalIPAddress := PrivateIpAddresses inst,
                           PublicIPAddress := Some (PublicIpAddresses inst),
                           EipAllocationIds := eip,
                           SSH := sshv\<rparr>)\<rparr>))"

definition syncClusterInstance ::
  "pkg_consts \<Rightarrow> provider \<Rightarrow> ssh \<Rightarrow> tencent
     \<Rightarrow> ((error + cvm_instance list) \<times> tencent) option" where
  "syncClusterInstance K P sshv p =
     (case describeInstances K P p of
        None \<Rightarrow> None
      | Some (Inl err, p1) \<Rightarrow> Some (Inl ListInstancesError, p1)
      | Some (Inr instanceList, p1) \<Rightarrow>
          Some (Inr instanceList, syncNodeStatusWithInstance (Some sshv) (sync_loop K P sshv instanceList p1)))"

section \<open>The default network\<close>

definition vpcName :: string where
  "vpcName = ''autok3s-tencent-vpc''"

definition subnetName :: string where
  "subnetName = ''autok3s-tencent-subnet''"

definition vpcCidrBlock :: string where
  "vpcCidrBlock = ''192.168.0.0/16''"

definition generateDefaultVPC :: "provider \<Rightarrow> tencent \<Rightarrow> error option \<times> tencent" where
  "generateDefaultVPC P p =
     (case CreateVpc P (trace p) vpcName vpcCidrBlock [(''autok3s'', ''true'')] of
        Inl err \<Rightarrow> (Some (SdkError err),
                     record_call (CallCreateVpc vpcName vpcCidrBlock [(''autok3s'', ''true'')]) p)
      | Inr ident \<Rightarrow> (None,
                       (record_call (CallCreateVpc vpcName vpcCidrBlock [(''autok3s'', ''true'')]) p)
                         \<lparr>VpcID := ident\<rparr>))"

definition generateDefaultSubnet :: "provider \<Rightarrow> tencent \<Rightarrow> error option \<times> tencent" where
  "generateDefaultSubnet P p =
     (case CreateSubnet P (trace p) (VpcID p) subnetName (Zone p) (''192.168.3.0/24'')
             [(''autok3s'', ''true'')] of
        Inl err \<Rightarrow> (Some (SdkError err),
                     record_call (CallCreateSubnet (VpcID p) subnetName (Zone p) (''192.168.3.0/24'')
                                    [(''autok3s'', ''true'')]) p)
      | Inr ident \<Rightarrow> (None,
                       (record_call (CallCreateSubnet (VpcID p) subnetName (Zone p) (''192.168.3.0/24'')
                                       [(''autok3s'', ''true'')]) p)
                         \<lparr>SubnetID := ident\<rparr>))"

definition vpc_filters :: "filter list" where
  "vpc_filters = [(''vpc-name'', [vpcName]), (''tag:autok3s'', [''true''])]"

definition subnet_filters :: "filter list" where
  "subnet_filters = [(''subnet-name'', [subnetName]), (''tag:autok3s'', [''true''])]"

definition configNetwork :: "provider \<Rightarrow> tencent \<Rightarrow> error option \<times> tencent" where
  "configNetwork P p =
     (case DescribeVpcs P (trace p) vpc_filters of
        Inl err \<Rightarrow> (Some (SdkError err), record_call (CallDescribeVpcs vpc_filters) p)
      | Inr [] \<Rightarrow>
          (case generateDefaultVPC P (record_call (CallDescribeVpcs vpc_filters) p) of
             (Some err, p1) \<Rightarrow> (Some err, p1)
           | (None, p1) \<Rightarrow> generateDefaultSubnet P p1)
      | Inr (defaultVPC # others) \<Rightarrow>
          (let p1 = (record_call (CallDescribeVpcs vpc_filters) p)\<lparr>VpcID := VpcId defaultVPC\<rparr>
           in case DescribeSubnets P (trace p1) [] subnet_filters of
                Inl err \<Rightarrow> (Some (SdkError err), record_call (CallDescribeSubnets [] subnet_filters) p1)
              | Inr (Some (subnet # further)) \<Rightarrow>
                  (None, (record_call (CallDescribeSubnets [] subnet_filters) p1)
                           \<lparr>SubnetID := SubnetId subnet\<rparr>)
              | Inr other \<Rightarrow>
                  generateDefaultSubnet P (record_call (CallDescribeSubnets [] subnet_filters) p1)))"

section \<open>The default security group's rules\<close>

definition subnetCidrBlock :: string where
  "subnetCidrBlock = ''192.168.3.0/24''"

definition ipRange :: string where
  "ipRange = ''0.0.0.0/0''"

definition getSubnetCidr :: "provider \<Rightarrow> tencent \<Rightarrow> (error + string) \<times> tencent" where
  "getSubnetCidr P p =
     (let response = DescribeSubnets P (trace p) [SubnetID p] [];
          p' = record_call (CallDescribeSubnets [SubnetID p] []) p
      in case response of
           Inl err \<Rightarrow> (Inl (SdkError err), p')
         | Inr None \<Rightarrow> (Inr [], p')
         | Inr (Some []) \<Rightarrow> (Inl (Panic ''index out of range''), p')
         | Inr (Some (s # rest)) \<Rightarrow> (Inr (sub_CidrBlock s), p'))"

text \<open>The flags that the scan of the existing ingress rules sets.\<close>

record port_flags =
  hasSSHPort :: bool
  hasAPIServerPort :: bool
  hasKubeletPort :: bool
  hasVXlanPort :: bool
  hasUIPort :: bool
  hasEtcdServerPort :: bool
  hasEtcdPeerPort :: bool

definition no_flags :: port_flags where
  "no_flags = \<lparr>hasSSHPort = False, hasAPIServerPort = False, hasKubeletPort = False,
     hasVXlanPort = False, hasUIPort = False, hasEtcdServerPort = False,
     hasEtcdPeerPort = False\<rparr>"

text \<open>The body of the inner loop: one element of the rule's port list.\<close>

definition scan_port :: "string \<Rightarrow> policy \<Rightarrow> string \<Rightarrow> port_flags \<Rightarrow> error + port_flags" where
  "scan_port cidr rule ps f =
     (let fromPort = fst (Atoi ps)
      in if fromPort = 22 then Inr (f\<lparr>hasSSHPort := True\<rparr>)
         else if fromPort = 6443 then Inr (f\<lparr>hasAPIServerPort := True\<rparr>)
         else if fromPort = 10250 then Inr (f\<lparr>hasKubeletPort := True\<rparr>)
         else if fromPort = 8472 then Inr (f\<lparr>hasVXlanPort := True\<rparr>)
         else if fromPort = 8999 then Inr (f\<lparr>hasUIPort := True\<rparr>)
         else if fromPort = 2379 then
           (case CidrBlock rule of
              None \<Rightarrow> Inl (Panic ''nil pointer dereference'')
            | Some b \<Rightarrow> if b = cidr \<or> b = ipRange then Inr (f\<lparr>hasEtcdServerPort := True\<rparr>)
                        else Inr f)
         else if fromPort = 2380 then
           (case CidrBlock rule of
              None \<Rightarrow> Inl (Panic ''nil pointer dereference'')
            | Some b \<Rightarrow> if b = cidr \<or> b = ipRange then Inr (f\<lparr>hasEtcdPeerPort := True\<rparr>)
                        else Inr f)
         else Inr f)"

fun scan_ports :: "string \<Rightarrow> policy \<Rightarrow> string list \<Rightarrow> port_flags \<Rightarrow> error + port_flags" where
  "scan_ports cidr rule [] f = Inr f"
| "scan_ports cidr rule (ps # rest) f =
     (case scan_port cidr rule ps f of
        Inl e \<Rightarrow> Inl e
      | Inr f' \<Rightarrow> scan_ports cidr rule rest f')"

definition scan_rule :: "string \<Rightarrow> policy \<Rightarrow> port_flags \<Rightarrow> error + port_flags" where
  "scan_rule cidr rule f =
     (case pol_Port rule of
        None \<Rightarrow> Inl (Panic ''nil pointer dereference'')
      | Some ports \<Rightarrow> scan_ports cidr rule (Split ports CHR '','') f)"

fun scan_rules :: "string \<Rightarrow> policy list \<Rightarrow> port_flags \<Rightarrow> error + port_flags" where
  "scan_rules cidr [] f = Inr f"
| "scan_rules cidr (rule # rules) f =
     (case scan_rule cidr rule f of
        Inl e \<Rightarrow> Inl e
      | Inr f' \<Rightarrow> scan_rules cidr rules f')"

definition accept :: "string \<Rightarrow> string \<Rightarrow> string \<Rightarrow> string \<Rightarrow> policy" where
  "accept protocol port cidr description =
     \<lparr>Protocol = protocol, pol_Port = Some port, CidrBlock = Some cidr, Action = ''ACCEPT'',
      PolicyDescription = description\<rparr>"

definition ssh_rule :: policy where
  "ssh_rule = accept ''TCP'' ''22'' ipRange ''accept for ssh(generated by autok3s)''"

definition vxlan_rule :: policy where
  "vxlan_rule = accept ''UDP'' ''8472'' ipRange ''accept for k3s vxlan(generated by autok3s)''"

definition apiserver_rule :: policy where
  "apiserver_rule = accept ''TCP'' ''6443'' ipRange ''accept for kube api-server(generated by autok3s)''"

definition kubelet_rule :: policy where
  "kubelet_rule = accept ''TCP'' ''10250'' ipRange ''accept for kubelet(generated by autok3s)''"

definition etcd_server_rule :: "string \<Rightarrow> policy" where
  "etcd_server_rule cidr = accept ''TCP'' ''2379'' cidr ''accept for etcd(generated by autok3s)''"

definition etcd_peer_rule :: "string \<Rightarrow> policy" where
  "etcd_peer_rule cidr = accept ''TCP'' ''2380'' cidr ''accept for etcd(generated by autok3s)''"

definition ui_rule :: policy where
  "ui_rule = accept ''TCP'' ''8999'' ipRange ''accept for dashboard(generated by autok3s)''"

definition egress_rule :: policy where
  "egress_rule = accept ''ALL'' ''all'' ipRange ''allow all egress(generated by autok3s)''"

text \<open>The list \<^verbatim>\<open>perms\<close>, built by the sequence of appends.\<close>

definition perms_of :: "tencent \<Rightarrow> string \<Rightarrow> port_flags \<Rightarrow> policy list" where
  "perms_of p cidr f =
     (if \<not> hasSSHPort f then [ssh_rule] else []) @
     (if (Network p = [] \<or> Network p = ''vxlan'') \<and> \<not> hasVXlanPort f then [vxlan_rule] else []) @
     (if \<not> hasAPIServerPort f then [apiserver_rule] else []) @
     (if \<not> hasKubeletPort f then [kubelet_rule] else []) @
     (if \<not> hasEtcdServerPort f \<or> \<not> hasEtcdPeerPort f
      then [etcd_server_rule cidr, etcd_peer_rule cidr] else []) @
     (if UI p \<and> \<not> hasUIPort f then [ui_rule] else [])"

text \<open>The two create calls at the end of \<^verbatim>\<open>configDefaultSecurityPermission\<close>.\<close>

definition create_rules ::
  "provider \<Rightarrow> policy list \<Rightarrow> bool \<Rightarrow> tencent \<Rightarrow> error option \<times> tencent" where
  "create_rules P perms hasEgress p =
     (case (if length perms > 0
            then (case CreateSecurityGroupPolicies P (trace p) (SecurityGroupIds p) perms [] of
                    Some err \<Rightarrow> (Some (SdkError err),
                                  record_call (CallCreateSecurityGroupPolicies (SecurityGroupIds p) perms []) p)
                  | None \<Rightarrow> (None,
                              record_call (CallCreateSecurityGroupPolicies (SecurityGroupIds p) perms []) p))
            else (None, p)) of
        (Some err, p1) \<Rightarrow> (Some err, p1)
      | (None, p1) \<Rightarrow>
          if \<not> hasEgress
          then (case CreateSecurityGroupPolicies P (trace p1) (SecurityGroupIds p1) [] [egress_rule] of
                  Some err \<Rightarrow> (Some (SdkError err),
                                record_call (CallCreateSecurityGroupPolicies (SecurityGroupIds p1) [] [egress_rule]) p1)
                | None \<Rightarrow> (None,
                            record_call (CallCreateSecurityGroupPolicies (SecurityGroupIds p1) [] [egress_rule]) p1))
          else (None, p1))"

definition configDefaultSecurityPermission :: "provider \<Rightarrow> tencent \<Rightarrow> error option \<times> tencent" where
  "configDefaultSecurityPermission P p =
     (case DescribeSecurityGroupPolicies P (trace p) (SecurityGroupIds p) of
        Inl err \<Rightarrow> (Some (SdkError err),
                     record_call (CallDescribeSecurityGroupPolicies (SecurityGroupIds p)) p)
      | Inr response \<Rightarrow>
          (case (if SubnetID p \<noteq> []
                 then getSubnetCidr P (record_call (CallDescribeSecurityGroupPolicies (SecurityGroupIds p)) p)
                 else (Inr subnetCidrBlock,
                       record_call (CallDescribeSecurityGroupPolicies (SecurityGroupIds p)) p)) of
             (Inl err, p2) \<Rightarrow> (Some err, p2)
           | (Inr cidr, p2) \<Rightarrow>
               (case (case response of
                        None \<Rightarrow> Inr (no_flags, False)
                      | Some pset \<Rightarrow>
                          (case Ingress pset of
                             None \<Rightarrow> Inr (no_flags, False)
                           | Some rules \<Rightarrow>
                               (case scan_rules cidr rules no_flags of
                                  Inl e \<Rightarrow> Inl e
                                | Inr f \<Rightarrow> Inr (f, length (Egress pset) > 0)))) of
                  Inl e \<Rightarrow> (Some e, p2)
                | Inr (f, hasEgress) \<Rightarrow> create_rules P (perms_of p2 cidr f) hasEgress p2)))"

text \<open>
  For stating which rules are missing: the port numbers a rule's port string names, a
  port that some rule names, and a datastore port that some rule names for the subnet's
  block or for any source.
\<close>

definition rule_ports :: "policy \<Rightarrow> int list" where
  "rule_ports rule = (case pol_Port rule of None \<Rightarrow> [] | Some ports \<Rightarrow> map (\<lambda>ps. fst (Atoi ps)) (Split ports CHR '',''))"

definition port_present :: "policy list \<Rightarrow> int \<Rightarrow> bool" where
  "port_present rules n = (\<exists>rule \<in> set rules. n \<in> set (rule_ports rule))"

definition etcd_present :: "string \<Rightarrow> policy list \<Rightarrow> int \<Rightarrow> bool" where
  "etcd_present cidr rules n =
     (\<exists>rule \<in> set rules. n \<in> set (rule_ports rule)
        \<and> (CidrBlock rule = Some cidr \<or> CidrBlock rule = Some ipRange))"

text \<open>The required rules with their port numbers, in the order the code appends them.\<close>

definition required_rules :: "tencent \<Rightarrow> string \<Rightarrow> (int \<times> policy) list" where
  "required_rules p cidr =
     [(22, ssh_rule)] @
     (if Network p = [] \<or> Network p = ''vxlan'' then [(8472, vxlan_rule)] else []) @
     [(6443, apiserver_rule), (10250, kubelet_rule),
      (2379, etcd_server_rule cidr), (2380, etcd_peer_rule cidr)] @
     (if UI p then [(8999, ui_rule)] else [])"

text \<open>A required rule is missing when no existing rule names its port; the two datastore
  rules are missing together, when either port is not named for the subnet's block or
  for any source.\<close>

definition missing :: "string \<Rightarrow> policy list \<Rightarrow> int \<Rightarrow> bool" where
  "missing cidr rules n =
     (if n = 2379 \<or> n = 2380
      then \<not> (etcd_present cidr rules 2379 \<and> etcd_present cidr rules 2380)
      else \<not> port_present rules n)"

text \<open>
  For stating the pairing: the registry nodes of a role that lack a public address, in
  iteration order; the association request for an address and a node; the registry
  update that stores the node with the address; and the provider's answers to the
  association requests for a list of pairs, made one after the other.
\<close>

definition lacking :: "bool \<Rightarrow> (string \<times> node) list \<Rightarrow> node list" where
  "lacking master es = filter (\<lambda>v. Master v = master \<and> PublicIPAddress v = None) (map snd es)"

definition pair_call :: "address \<times> node \<Rightarrow> call" where
  "pair_call z = CallAssociateAddress (AddressId (fst z)) (InstanceID (snd z))"

definition pair_store :: "(string \<times> node) list \<Rightarrow> address \<times> node \<Rightarrow> (string \<times> node) list" where
  "pair_store r z = Store r (InstanceID (snd z)) (with_eip (snd z) (fst z))"

fun association_answers ::
  "provider \<Rightarrow> call list \<Rightarrow> (address \<times> node) list \<Rightarrow> (string + string) list" where
  "association_answers P h [] = []"
| "association_answers P h (z # zs) =
     AssociateAddress P h (AddressId (fst z)) (InstanceID (snd z))
       # association_answers P (h @ [pair_call z]) zs"

text \<open>
  For stating what the waiters did. The receiver after \<open>j\<close> polls of a task, and the
  outcome of the poll that a waiter started in \<open>p\<close> makes after \<open>j\<close> polls. A waiter has
  returned after \<open>n\<close> polls when every poll before the last said not yet done, and the
  last one said done or failed unless the attempts were used up. The waiters of a list
  of tasks run one after the other, each from the receiver the one before left.
\<close>

definition polled :: "nat \<Rightarrow> nat \<Rightarrow> tencent \<Rightarrow> tencent" where
  "polled t j p = p\<lparr>trace := trace p @ replicate j (CallDescribeTaskResult t)\<rparr>"





section \<open>Example inputs\<close>

text \<open>Constants for the examples. The strings of the examples are ASCII, so the case
  tables are never consulted; they are set to leave a string as it is.\<close>

definition K0 :: pkg_consts where
  "K0 = \<lparr>Backoff_Steps = 3, Running = ''RUNNING'', Success = ''SUCCESS'', Failed = ''FAILED'',
     StatusPending = ''PENDING'', StatusRunning = ''RUNNING'', TagClusterPrefix = ''autok3s-'',
     ServiceTypeEIP = ''cvm'', ResourcePrefixEIP = ''eip'',
     unicode_ToUpper = (\<lambda>s. s), unicode_EqualFold = (\<lambda>s t. s = t)\<rparr>"

text \<open>A provider on which every operation fails; the examples override single operations.\<close>

definition idle_provider :: provider where
  "idle_provider =
     \<lparr>RunInstances = (\<lambda>h q. Inl ''unavailable''),
      DescribeInstances = (\<lambda>h fs off. Inl ''unavailable''),
      TerminateInstances = (\<lambda>h ids. Some ''unavailable''),
      AllocateAddresses = (\<lambda>h n ts. Inl ''unavailable''),
      ReleaseAddresses = (\<lambda>h ids. Inl ''unavailable''),
      DescribeAddresses = (\<lambda>h ids fs. Inl ''unavailable''),
      AssociateAddress = (\<lambda>h a i. Inl ''unavailable''),
      DisassociateAddress = (\<lambda>h a. Inl ''unavailable''),
      DescribeTaskResult = (\<lambda>h t. Inl ''unavailable''),
      DescribeResourcesByTags = (\<lambda>h fs. Inl ''unavailable''),
      DescribeVpcs = (\<lambda>h fs. Inl ''unavailable''),
      DescribeSubnets = (\<lambda>h ids fs. Inl ''unavailable''),
      CreateVpc = (\<lambda>h n cidr ts. Inl ''unavailable''),
      CreateSubnet = (\<lambda>h v n z cidr ts. Inl ''unavailable''),
      DescribeSecurityGroupPolicies = (\<lambda>h g. Inl ''unavailable''),
      CreateSecurityGroupPolicies = (\<lambda>h g ing eg. Some ''unavailable'')\<rparr>"

definition quiet_host :: host where
  "quiet_host =
     \<lparr>AskForConfirmation = True, GetLogFile = (\<lambda>n. None), NewClient = (\<lambda>n. None),
      UploadKeyPair = (\<lambda>v k. None), OverwriteCfg = (\<lambda>n. None), DeleteState = (\<lambda>n. None),
      RemoveAll = (\<lambda>n. None)\<rparr>"

text \<open>The receiver as \<^verbatim>\<open>NewProvider\<close> builds it, with a cluster name.\<close>

definition NewProvider :: tencent where
  "NewProvider =
     \<lparr>Name = ''demo'', Metadata_Master = ''0'', Metadata_Worker = ''0'', UI = False,
      Cluster = False, DataStore = [], MasterExtraArgs = [], Network = [],
      CloudControllerManager = False, Region = ''ap-guangzhou'', Zone = ''ap-guangzhou-3'',
      KeyIds = [], VpcID = [], SubnetID = [], SecurityGroupIds = [],
      PublicIPAssignedEIP = False, NetworkRouteTableName = [], Tags = [],
      MasterNodes = [], WorkerNodes = [], p_c = False, m = [], trace = []\<rparr>"

definition P_launch :: "string list \<Rightarrow> provider" where
  "P_launch ids = idle_provider\<lparr>RunInstances := (\<lambda>h q. Inr ids)\<rparr>"

definition P_task :: "string + string \<Rightarrow> provider" where
  "P_task r = idle_provider\<lparr>DescribeTaskResult := (\<lambda>h t. r)\<rparr>"

text \<open>A provider whose answer to the first request differs from its later answers.\<close>

definition P_task_then :: "string + string \<Rightarrow> string + string \<Rightarrow> provider" where
  "P_task_then first later =
     idle_provider\<lparr>DescribeTaskResult := (\<lambda>h t. if h = [] then first else later)\<rparr>"

text \<open>A provider that allocates two addresses and associates them, with the task 21
  for the instance \<open>ins-1\<close> and the task 22 for \<open>ins-2\<close>; a variant refuses the
  association for \<open>ins-2\<close>. A registry with two launched masters.\<close>

definition two_addresses :: "address list" where
  "two_addresses = [\<lparr>AddressId = ''eip-1'', AddressIp = ''1.1.1.1''\<rparr>,
                    \<lparr>AddressId = ''eip-2'', AddressIp = ''2.2.2.2''\<rparr>]"

definition P_eip :: provider where
  "P_eip = idle_provider
     \<lparr>AllocateAddresses := (\<lambda>h n ts. Inr ([''eip-1'', ''eip-2''], ''11'')),
      DescribeAddresses := (\<lambda>h ids fs. Inr (Some two_addresses)),
      AssociateAddress := (\<lambda>h a i. if i = ''ins-2'' then Inr ''22'' else Inr ''21''),
      DescribeTaskResult := (\<lambda>h t. Inr ''SUCCESS'')\<rparr>"

definition P_eip_refused :: provider where
  "P_eip_refused = P_eip
     \<lparr>AssociateAddress := (\<lambda>h a i. if i = ''ins-2'' then Inl ''refused'' else Inr ''21'')\<rparr>"

definition p_launched :: tencent where
  "p_launched = NewProvider
     \<lparr>PublicIPAssignedEIP := True,
      m := [(''ins-1'', launched_node K0 True ''ins-1''),
            (''ins-2'', launched_node K0 True ''ins-2'')]\<rparr>"

definition p_described :: tencent where
  "p_described = p_launched
     \<lparr>trace := [CallAllocateAddresses 2 (cluster_tags K0 p_launched),
                 CallDescribeTaskResult 11,
                 CallDescribeAddresses [''eip-1'', ''eip-2''] []]\<rparr>"

text \<open>Security groups: one that lacks only the datastore peer port, and one that has
  every required rule. Creating rules succeeds.\<close>

definition rules_without_peer :: "policy list" where
  "rules_without_peer =
     [ssh_rule, vxlan_rule, apiserver_rule, kubelet_rule, etcd_server_rule ipRange]"

definition rules_complete :: "policy list" where
  "rules_complete =
     [ssh_rule, vxlan_rule, apiserver_rule, kubelet_rule,
      etcd_server_rule subnetCidrBlock, etcd_peer_rule ipRange]"

definition P_group :: "policy list \<Rightarrow> policy list \<Rightarrow> provider" where
  "P_group rules eg = idle_provider
     \<lparr>DescribeSecurityGroupPolicies := (\<lambda>h g. Inr (Some \<lparr>Ingress = Some rules, Egress = eg\<rparr>)),
      CreateSecurityGroupPolicies := (\<lambda>h g ing egr. None)\<rparr>"

definition p_group :: tencent where
  "p_group = NewProvider\<lparr>SecurityGroupIds := ''sg-1''\<rparr>"




text \<open>A cluster of one instance that owns one tagged address. The provider answers the
  query of the tagged resources and every poll of a task as given.\<close>

definition ins_1 :: cvm_instance where
  "ins_1 = \<lparr>InstanceId = ''ins-1'', InstanceState = ''RUNNING'', ins_Tags = [(''master'', ''true'')],
     PrivateIpAddresses = [''10.0.0.1''], PublicIpAddresses = []\<rparr>"

definition eip_row :: resource_tag where
  "eip_row = \<lparr>ServiceType = ''cvm'', ResourcePrefix = ''eip'', ResourceId = ''eip-1''\<rparr>"

definition P_cluster :: "string + resource_tag list \<Rightarrow> string \<Rightarrow> provider" where
  "P_cluster tagged result = idle_provider
     \<lparr>DescribeInstances := (\<lambda>h fs off. Inr \<lparr>InstanceSet = [ins_1], TotalCount = 1\<rparr>),
      DescribeResourcesByTags := (\<lambda>h fs. tagged),
      DescribeAddresses := (\<lambda>h ids fs. Inr (Some two_addresses)),
      DisassociateAddress := (\<lambda>h a. Inr (Some ''5'')),
      DescribeTaskResult := (\<lambda>h t. Inr result),
      ReleaseAddresses := (\<lambda>h ids. Inr ''6''),
      TerminateInstances := (\<lambda>h ids. None)\<rparr>"

definition p_on :: tencent where
  "p_on = NewProvider\<lparr>p_c := True\<rparr>"

definition found_call :: call where
  "found_call = CallDescribeInstances (instance_filters K0 p_on) None"

definition tagged_call :: call where
  "tagged_call = CallDescribeResourcesByTags
     [(''autok3s'', [''true'']), (''cluster'', [TagClusterPrefix K0 @ Name p_on])]"

text \<open>
  A cloud with two networks of the fixed name, both tagged, as two runs at the same time
  leave them: the first has no subnet, the second holds the subnet of the fixed name.
  The provider answers a describe request with the resources that match every filter
  of the request.
\<close>

record cloud_vpc =
  cv_id :: string
  cv_name :: string
  cv_tags :: "(string \<times> string) list"

record cloud_subnet =
  cs_id :: string
  cs_vpc :: string
  cs_name :: string
  cs_tags :: "(string \<times> string) list"
  cs_cidr :: string

definition vpc_matches :: "cloud_vpc \<Rightarrow> filter \<Rightarrow> bool" where
  "vpc_matches v f =
     (if fst f = ''vpc-name'' then cv_name v \<in> set (snd f)
      else if fst f = ''vpc-id'' then cv_id v \<in> set (snd f)
      else if fst f = ''tag:autok3s'' then list_ex (\<lambda>t. fst t = ''autok3s'' \<and> snd t \<in> set (snd f)) (cv_tags v)
      else False)"

definition subnet_matches :: "cloud_subnet \<Rightarrow> filter \<Rightarrow> bool" where
  "subnet_matches s f =
     (if fst f = ''subnet-name'' then cs_name s \<in> set (snd f)
      else if fst f = ''vpc-id'' then cs_vpc s \<in> set (snd f)
      else if fst f = ''tag:autok3s'' then list_ex (\<lambda>t. fst t = ''autok3s'' \<and> snd t \<in> set (snd f)) (cs_tags s)
      else False)"

definition P_cloud :: "cloud_vpc list \<Rightarrow> cloud_subnet list \<Rightarrow> provider" where
  "P_cloud vpcs subnets = idle_provider
     \<lparr>DescribeVpcs := (\<lambda>h fs.
        Inr (map (\<lambda>v. \<lparr>VpcId = cv_id v\<rparr>) (filter (\<lambda>v. list_all (vpc_matches v) fs) vpcs))),
      DescribeSubnets := (\<lambda>h ids fs.
        Inr (Some (map (\<lambda>s. \<lparr>SubnetId = cs_id s, sub_VpcId = cs_vpc s, sub_CidrBlock = cs_cidr s\<rparr>)
                     (filter (\<lambda>s. list_all (subnet_matches s) fs) subnets))))\<rparr>"

definition two_networks :: "cloud_vpc list" where
  "two_networks =
     [\<lparr>cv_id = ''vpc-1'', cv_name = ''autok3s-tencent-vpc'', cv_tags = [(''autok3s'', ''true'')]\<rparr>,
      \<lparr>cv_id = ''vpc-2'', cv_name = ''autok3s-tencent-vpc'', cv_tags = [(''autok3s'', ''true'')]\<rparr>]"

definition subnet_of_second :: "cloud_subnet list" where
  "subnet_of_second =
     [\<lparr>cs_id = ''subnet-9'', cs_vpc = ''vpc-2'', cs_name = ''autok3s-tencent-subnet'',
       cs_tags = [(''autok3s'', ''true'')], cs_cidr = ''192.168.3.0/24''\<rparr>]"

section \<open>Properties of the registry\<close>

lemma map_of_Store: "map_of (Store r k v) = (map_of r)(k \<mapsto> v)"
  by (induction r) (auto simp: fun_eq_iff)

lemma Load_Store: "Load (Store r k v) k' = (if k' = k then Some v else Load r k')"
  by (simp add: Load_def map_of_Store)

lemma Load_store_launched:
  "Load (store_launched K master r ids) k =
     (if k \<in> set ids then Some (launched_node K master k) else Load r k)"
  unfolding store_launched_def
  by (induction ids arbitrary: r rule: rev_induct) (auto simp: Load_Store)

section \<open>The single-task waiter\<close>

lemma ToUpper_steps [simp]: "ToUpper (K\<lparr>Backoff_Steps := n\<rparr>) s = ToUpper K s"
  by (simp add: ToUpper_def)

lemma poll_steps [simp]:
  "describeVpcTaskResult_poll (K\<lparr>Backoff_Steps := n\<rparr>) P t p = describeVpcTaskResult_poll K P t p"
  by (simp add: describeVpcTaskResult_poll_def Let_def split: sum.splits)

lemma poll_steps_fun [simp]:
  "describeVpcTaskResult_poll (K\<lparr>Backoff_Steps := n\<rparr>) P t = describeVpcTaskResult_poll K P t"
  by (rule ext) simp

lemma describeVpcTaskResult_step:
  assumes "Backoff_Steps K = Suc n"
  shows "describeVpcTaskResult K P t p =
     (case describeVpcTaskResult_poll K P t p of
        ((ok, err), p') \<Rightarrow>
          if err \<noteq> None \<or> ok then (err, p')
          else describeVpcTaskResult (K\<lparr>Backoff_Steps := n\<rparr>) P t p')"
  by (simp add: describeVpcTaskResult_def assms split: prod.splits)

text \<open>
  C6. The waiter \<^verbatim>\<open>describeVpcTaskResult\<close> of a task, with attempts left, polls the provider
  once and maps the answer, upper-cased, as follows. Running: not yet done, the waiter
  goes on with the attempts that are left. Success: done, the waiter returns without an
  error. Failed: a terminal failure, the waiter returns the error that carries the task
  id. Any other value: done. An error of the API call: not yet done, the waiter goes on
  as for Running. With no attempt left the waiter returns the timeout error. The three
  constants are distinct, as the cases of a Go switch are.
\<close>

theorem describeVpcTaskResult_outcomes:
  assumes "distinct [Running K, Success K, Failed K]"
  shows "(Backoff_Steps K = 0 \<longrightarrow>
            describeVpcTaskResult K P t p = (Some (ErrWaitTimeout ''describeVpcTaskResult''), p))
       \<and> (0 < Backoff_Steps K \<and> DescribeTaskResult P (trace p) t = Inr r
            \<and> ToUpper K r = Running K \<longrightarrow>
            outcome_of (fst (describeVpcTaskResult_poll K P t p)) = NotYetDone
          \<and> describeVpcTaskResult K P t p
              = describeVpcTaskResult (K\<lparr>Backoff_Steps := Backoff_Steps K - 1\<rparr>) P t
                  (record_call (CallDescribeTaskResult t) p))
       \<and> (0 < Backoff_Steps K \<and> DescribeTaskResult P (trace p) t = Inr r
            \<and> ToUpper K r = Success K \<longrightarrow>
            outcome_of (fst (describeVpcTaskResult_poll K P t p)) = Done
          \<and> describeVpcTaskResult K P t p = (None, record_call (CallDescribeTaskResult t) p))
       \<and> (0 < Backoff_Steps K \<and> DescribeTaskResult P (trace p) t = Inr r
            \<and> ToUpper K r = Failed K \<longrightarrow>
            outcome_of (fst (describeVpcTaskResult_poll K P t p)) = TerminalFailure (TaskFailed t)
          \<and> describeVpcTaskResult K P t p
              = (Some (TaskFailed t), record_call (CallDescribeTaskResult t) p))
       \<and> (0 < Backoff_Steps K \<and> DescribeTaskResult P (trace p) t = Inr r
            \<and> ToUpper K r \<notin> {Running K, Success K, Failed K} \<longrightarrow>
            outcome_of (fst (describeVpcTaskResult_poll K P t p)) = Done
          \<and> describeVpcTaskResult K P t p = (None, record_call (CallDescribeTaskResult t) p))
       \<and> (0 < Backoff_Steps K \<and> DescribeTaskResult P (trace p) t = Inl e \<longrightarrow>
            outcome_of (fst (describeVpcTaskResult_poll K P t p)) = NotYetDone
          \<and> describeVpcTaskResult K P t p
              = describeVpcTaskResult (K\<lparr>Backoff_Steps := Backoff_Steps K - 1\<rparr>) P t
                  (record_call (CallDescribeTaskResult t) p))"
proof -
  have zero: "Backoff_Steps K = 0 \<longrightarrow>
            describeVpcTaskResult K P t p = (Some (ErrWaitTimeout ''describeVpcTaskResult''), p)"
    by (simp add: describeVpcTaskResult_def)
  have step: "describeVpcTaskResult K P t p =
     (case describeVpcTaskResult_poll K P t p of
        ((ok, err), p') \<Rightarrow>
          if err \<noteq> None \<or> ok then (err, p')
          else describeVpcTaskResult (K\<lparr>Backoff_Steps := Backoff_Steps K - 1\<rparr>) P t p')"
    if "0 < Backoff_Steps K"
  proof -
    from that obtain n where n: "Backoff_Steps K = Suc n"
      by (cases "Backoff_Steps K") simp_all
    then have "Backoff_Steps K - 1 = n" by simp
    with describeVpcTaskResult_step [OF n, of P t p] show ?thesis
      by (simp only:)
  qed
  have running: "outcome_of (fst (describeVpcTaskResult_poll K P t p)) = NotYetDone
          \<and> describeVpcTaskResult K P t p
              = describeVpcTaskResult (K\<lparr>Backoff_Steps := Backoff_Steps K - 1\<rparr>) P t
                  (record_call (CallDescribeTaskResult t) p)"
    if "0 < Backoff_Steps K" "DescribeTaskResult P (trace p) t = Inr r" "ToUpper K r = Running K"
    using that(2,3) by (simp add: step [OF that(1)] describeVpcTaskResult_poll_def Let_def)
  have success: "outcome_of (fst (describeVpcTaskResult_poll K P t p)) = Done
          \<and> describeVpcTaskResult K P t p = (None, record_call (CallDescribeTaskResult t) p)"
    if "0 < Backoff_Steps K" "DescribeTaskResult P (trace p) t = Inr r" "ToUpper K r = Success K"
    using that(2,3) assms by (auto simp: step [OF that(1)] describeVpcTaskResult_poll_def Let_def)
  have failed: "outcome_of (fst (describeVpcTaskResult_poll K P t p)) = TerminalFailure (TaskFailed t)
          \<and> describeVpcTaskResult K P t p
              = (Some (TaskFailed t), record_call (CallDescribeTaskResult t) p)"
    if "0 < Backoff_Steps K" "DescribeTaskResult P (trace p) t = Inr r" "ToUpper K r = Failed K"
    using that(2,3) assms by (auto simp: step [OF that(1)] describeVpcTaskResult_poll_def Let_def)
  have other: "outcome_of (fst (describeVpcTaskResult_poll K P t p)) = Done
          \<and> describeVpcTaskResult K P t p = (None, record_call (CallDescribeTaskResult t) p)"
    if "0 < Backoff_Steps K" "DescribeTaskResult P (trace p) t = Inr r"
       "ToUpper K r \<notin> {Running K, Success K, Failed K}"
    using that(2,3) by (simp add: step [OF that(1)] describeVpcTaskResult_poll_def Let_def)
  have api: "outcome_of (fst (describeVpcTaskResult_poll K P t p)) = NotYetDone
          \<and> describeVpcTaskResult K P t p
              = describeVpcTaskResult (K\<lparr>Backoff_Steps := Backoff_Steps K - 1\<rparr>) P t
                  (record_call (CallDescribeTaskResult t) p)"
    if "0 < Backoff_Steps K" "DescribeTaskResult P (trace p) t = Inl e"
    using that(2) by (simp add: step [OF that(1)] describeVpcTaskResult_poll_def Let_def)
  show ?thesis
    using zero running success failed other api by (intro conjI impI) (elim conjE, assumption | simp)+
qed


theorem describeVpcTaskResult_outcomes_witness:
  "distinct [Running K0, Success K0, Failed K0]
   \<and> 0 < Backoff_Steps K0
   \<and> DescribeTaskResult (P_task (Inr ''Failed'')) (trace NewProvider) 7 = Inr ''Failed''
   \<and> ToUpper K0 ''Failed'' = Failed K0
   \<and> describeVpcTaskResult K0 (P_task (Inr ''Failed'')) 7 NewProvider
       = (Some (TaskFailed 7), record_call (CallDescribeTaskResult 7) NewProvider)
   \<and> DescribeTaskResult (P_task (Inr ''DONE'')) (trace NewProvider) 7 = Inr ''DONE''
   \<and> ToUpper K0 ''DONE'' \<notin> {Running K0, Success K0, Failed K0}
   \<and> describeVpcTaskResult K0 (P_task (Inr ''DONE'')) 7 NewProvider
       = (None, record_call (CallDescribeTaskResult 7) NewProvider)
   \<and> DescribeTaskResult (P_task_then (Inr ''running'') (Inr ''Success'')) (trace NewProvider) 7
       = Inr ''running''
   \<and> ToUpper K0 ''running'' = Running K0
   \<and> DescribeTaskResult (P_task_then (Inr ''running'') (Inr ''Success''))
         (trace (record_call (CallDescribeTaskResult 7) NewProvider)) 7
       = Inr ''Success''
   \<and> ToUpper K0 ''Success'' = Success K0
   \<and> describeVpcTaskResult K0 (P_task_then (Inr ''running'') (Inr ''Success'')) 7 NewProvider
       = (None, record_call (CallDescribeTaskResult 7)
                  (record_call (CallDescribeTaskResult 7) NewProvider))
   \<and> DescribeTaskResult (P_task (Inl ''timeout'')) (trace NewProvider) 7 = Inl ''timeout''
   \<and> describeVpcTaskResult K0 (P_task (Inl ''timeout'')) 7 NewProvider
       = (Some (ErrWaitTimeout ''describeVpcTaskResult''),
          record_call (CallDescribeTaskResult 7)
            (record_call (CallDescribeTaskResult 7)
               (record_call (CallDescribeTaskResult 7) NewProvider)))"
proof -
  let ?K2 = "K0\<lparr>Backoff_Steps := 2\<rparr>"
  let ?K1 = "K0\<lparr>Backoff_Steps := 1\<rparr>"
  let ?K0 = "K0\<lparr>Backoff_Steps := 0\<rparr>"
  let ?p1 = "record_call (CallDescribeTaskResult 7) NewProvider"
  let ?p2 = "record_call (CallDescribeTaskResult 7) ?p1"
  let ?p3 = "record_call (CallDescribeTaskResult 7) ?p2"
  have d: "distinct [Running K0, Success K0, Failed K0]"
    by (simp add: K0_def)
  have d2: "distinct [Running ?K2, Success ?K2, Failed ?K2]"
    and d1: "distinct [Running ?K1, Success ?K1, Failed ?K1]"
    and d0: "distinct [Running ?K0, Success ?K0, Failed ?K0]"
    by (simp_all add: K0_def)
  have s3: "0 < Backoff_Steps K0" and s2: "0 < Backoff_Steps ?K2" and s1: "0 < Backoff_Steps ?K1"
    and s0: "Backoff_Steps ?K0 = 0"
    by (simp_all add: K0_def)
  have k2: "K0\<lparr>Backoff_Steps := Backoff_Steps K0 - 1\<rparr> = ?K2"
    and k1: "?K2\<lparr>Backoff_Steps := Backoff_Steps ?K2 - 1\<rparr> = ?K1"
    and k0: "?K1\<lparr>Backoff_Steps := Backoff_Steps ?K1 - 1\<rparr> = ?K0"
    by (simp_all add: K0_def)
  have failed: "DescribeTaskResult (P_task (Inr ''Failed'')) (trace NewProvider) 7 = Inr ''Failed''"
    and failed_up: "ToUpper K0 ''Failed'' = Failed K0"
    by (simp_all add: P_task_def K0_def ToUpper_def is_ascii_def upper_char_def)
  have other: "DescribeTaskResult (P_task (Inr ''DONE'')) (trace NewProvider) 7 = Inr ''DONE''"
    and other_up: "ToUpper K0 ''DONE'' \<notin> {Running K0, Success K0, Failed K0}"
    by (simp_all add: P_task_def K0_def ToUpper_def is_ascii_def upper_char_def)
  have run: "DescribeTaskResult (P_task_then (Inr ''running'') (Inr ''Success'')) (trace NewProvider) 7
       = Inr ''running''"
    and run_up: "ToUpper K0 ''running'' = Running K0"
    by (simp_all add: P_task_then_def NewProvider_def K0_def ToUpper_def is_ascii_def upper_char_def)
  have succ: "DescribeTaskResult (P_task_then (Inr ''running'') (Inr ''Success'')) (trace ?p1) 7
       = Inr ''Success''"
    and succ_up: "ToUpper K0 ''Success'' = Success K0"
    and succ_up2: "ToUpper ?K2 ''Success'' = Success ?K2"
    by (simp_all add: P_task_then_def K0_def ToUpper_def is_ascii_def upper_char_def record_call_def)
  have err: "DescribeTaskResult (P_task (Inl ''timeout'')) h 7 = Inl ''timeout''" for h
    by (simp add: P_task_def)
  have r_failed: "describeVpcTaskResult K0 (P_task (Inr ''Failed'')) 7 NewProvider
       = (Some (TaskFailed 7), ?p1)"
    using describeVpcTaskResult_outcomes
            [OF d, of "P_task (Inr ''Failed'')" 7 NewProvider "''Failed''",
             THEN conjunct2, THEN conjunct2, THEN conjunct2, THEN conjunct1, rule_format,
             OF conjI [OF s3 conjI [OF failed failed_up]]]
    by (rule conjunct2)
  have r_other: "describeVpcTaskResult K0 (P_task (Inr ''DONE'')) 7 NewProvider = (None, ?p1)"
    using describeVpcTaskResult_outcomes
            [OF d, of "P_task (Inr ''DONE'')" 7 NewProvider "''DONE''",
             THEN conjunct2, THEN conjunct2, THEN conjunct2, THEN conjunct2, THEN conjunct1,
             rule_format, OF conjI [OF s3 conjI [OF other other_up]]]
    by (rule conjunct2)
  have "describeVpcTaskResult K0 (P_task_then (Inr ''running'') (Inr ''Success'')) 7 NewProvider
       = describeVpcTaskResult ?K2 (P_task_then (Inr ''running'') (Inr ''Success'')) 7 ?p1"
    using describeVpcTaskResult_outcomes
            [OF d, of "P_task_then (Inr ''running'') (Inr ''Success'')" 7 NewProvider "''running''",
             THEN conjunct2, THEN conjunct1, rule_format,
             OF conjI [OF s3 conjI [OF run run_up]], THEN conjunct2]
    unfolding k2 .
  also have "\<dots> = (None, ?p2)"
    using describeVpcTaskResult_outcomes
            [OF d2, of "P_task_then (Inr ''running'') (Inr ''Success'')" 7 ?p1 "''Success''",
             THEN conjunct2, THEN conjunct2, THEN conjunct1, rule_format,
             OF conjI [OF s2 conjI [OF succ succ_up2]]]
    by (rule conjunct2)
  finally have r_run: "describeVpcTaskResult K0 (P_task_then (Inr ''running'') (Inr ''Success'')) 7
       NewProvider = (None, ?p2)" .
  note api = describeVpcTaskResult_outcomes
            [THEN conjunct2, THEN conjunct2, THEN conjunct2, THEN conjunct2, THEN conjunct2,
             rule_format, THEN conjunct2]
  have "describeVpcTaskResult K0 (P_task (Inl ''timeout'')) 7 NewProvider
       = describeVpcTaskResult ?K2 (P_task (Inl ''timeout'')) 7 ?p1"
    using api [OF d conjI [OF s3 err]] unfolding k2 .
  also have "\<dots> = describeVpcTaskResult ?K1 (P_task (Inl ''timeout'')) 7 ?p2"
    using api [OF d2 conjI [OF s2 err]] unfolding k1 .
  also have "\<dots> = describeVpcTaskResult ?K0 (P_task (Inl ''timeout'')) 7 ?p3"
    using api [OF d1 conjI [OF s1 err]] unfolding k0 .
  also have "\<dots> = (Some (ErrWaitTimeout ''describeVpcTaskResult''), ?p3)"
    using describeVpcTaskResult_outcomes [OF d0, THEN conjunct1, rule_format, OF s0] .
  finally have r_err: "describeVpcTaskResult K0 (P_task (Inl ''timeout'')) 7 NewProvider
       = (Some (ErrWaitTimeout ''describeVpcTaskResult''), ?p3)" .
  from d s3 failed failed_up r_failed other other_up r_other run run_up succ succ_up r_run
    err [of "trace NewProvider"] r_err
  show ?thesis
    by (intro conjI)
qed

section \<open>Launching a batch\<close>

text \<open>
  C3. A launch of \<open>num\<close> instances whose provider call fails, or returns a number of
  instance ids other than \<open>num\<close>, is reported as an error and leaves the registry as it
  was. When exactly \<open>num\<close> ids come back, the launch succeeds, every returned id is in
  the registry with status Pending and the rollback flag set, and no other key changes.
\<close>

theorem runInstances_batch:
  "(RunInstances P (trace p) (runInstances_request K p num master password) = Inl e \<longrightarrow>
      fst (runInstances K P num master password p) \<noteq> None
      \<and> m (snd (runInstances K P num master password p)) = m p)
 \<and> (RunInstances P (trace p) (runInstances_request K p num master password) = Inr ids
      \<and> int (length ids) \<noteq> num \<longrightarrow>
      fst (runInstances K P num master password p) \<noteq> None
      \<and> m (snd (runInstances K P num master password p)) = m p)
 \<and> (RunInstances P (trace p) (runInstances_request K p num master password) = Inr ids
      \<and> int (length ids) = num \<longrightarrow>
      fst (runInstances K P num master password p) = None
      \<and> (\<forall>i \<in> set ids. \<exists>v. Load (m (snd (runInstances K P num master password p))) i = Some v
             \<and> InstanceID v = i \<and> Master v = master
             \<and> InstanceStatus v = StatusPending K \<and> RollBack v)
      \<and> (\<forall>k. k \<notin> set ids \<longrightarrow>
             Load (m (snd (runInstances K P num master password p))) k = Load (m p) k))"
  by (auto simp: runInstances_def Let_def record_call_def Load_store_launched launched_node_def)

theorem runInstances_batch_witness:
  "RunInstances (P_launch [''ins-1'']) (trace NewProvider)
       (runInstances_request K0 NewProvider 2 True ''pw'') = Inr [''ins-1'']
   \<and> int (length [''ins-1'']) \<noteq> 2
   \<and> fst (runInstances K0 (P_launch [''ins-1'']) 2 True ''pw'' NewProvider) \<noteq> None
   \<and> m (snd (runInstances K0 (P_launch [''ins-1'']) 2 True ''pw'' NewProvider)) = m NewProvider
   \<and> RunInstances (P_launch [''ins-1'', ''ins-2'']) (trace NewProvider)
       (runInstances_request K0 NewProvider 2 True ''pw'') = Inr [''ins-1'', ''ins-2'']
   \<and> int (length [''ins-1'', ''ins-2'']) = 2
   \<and> fst (runInstances K0 (P_launch [''ins-1'', ''ins-2'']) 2 True ''pw'' NewProvider) = None
   \<and> (\<exists>v. Load (m (snd (runInstances K0 (P_launch [''ins-1'', ''ins-2'']) 2 True ''pw'' NewProvider)))
            ''ins-2'' = Some v
          \<and> InstanceStatus v = StatusPending K0 \<and> RollBack v)"
proof -
  have short: "RunInstances (P_launch [''ins-1'']) (trace NewProvider)
       (runInstances_request K0 NewProvider 2 True ''pw'') = Inr [''ins-1'']
     \<and> int (length [''ins-1'']) \<noteq> 2"
    by (simp add: P_launch_def)
  have full: "RunInstances (P_launch [''ins-1'', ''ins-2'']) (trace NewProvider)
       (runInstances_request K0 NewProvider 2 True ''pw'') = Inr [''ins-1'', ''ins-2'']
     \<and> int (length [''ins-1'', ''ins-2'']) = 2"
    by (simp add: P_launch_def)
  have mem: "''ins-2'' \<in> set [''ins-1'', ''ins-2'']"
    by simp
  from short full mem
    runInstances_batch [of "P_launch [''ins-1'']" NewProvider K0 2 True "''pw''" "''e''" "[''ins-1'']"]
    runInstances_batch [of "P_launch [''ins-1'', ''ins-2'']" NewProvider K0 2 True "''pw''" "''e''"
      "[''ins-1'', ''ins-2'']"]
  show ?thesis
    by blast
qed

section \<open>Pairing addresses with nodes\<close>

lemma Range_entries_append:
  "Range_entries f (xs @ ys) s =
     (case Range_entries f xs s of
        Inl e \<Rightarrow> Inl e
      | Inr (go_on, s') \<Rightarrow> if go_on then Range_entries f ys s' else Inr (False, s'))"
  by (induction xs arbitrary: s) (auto split: sum.splits prod.splits)

lemma associateAddress_state:
  "associateAddress P a i p = (r, p') \<Longrightarrow>
     p' = record_call (CallAssociateAddress a i) p"
  by (auto simp: associateAddress_def Let_def split: sum.splits option.splits)

lemma record_call_m [simp]: "m (record_call cl p) = m p"
  by (simp add: record_call_def)

lemma record_call_trace [simp]: "trace (record_call cl p) = trace p @ [cl]"
  by (simp add: record_call_def)

lemma with_eip_InstanceID [simp]: "InstanceID (with_eip v a) = InstanceID v"
  by (simp add: with_eip_def)

lemma associate_visit_Load:
  assumes "associate_visit P master (k, v) (as, ids, p) = Inr (go_on, (as', ids', p'))"
      and "k' \<noteq> InstanceID v"
  shows "Load (m p') k' = Load (m p) k'"
  using assms
  by (auto simp: associate_visit_def Let_def Load_Store split: if_splits list.splits prod.splits sum.splits
      dest!: associateAddress_state)

lemma Range_entries_associate_Load:
  assumes "Range_entries (associate_visit P master) es (as, ids, p) = Inr (go_on, (as', ids', p'))"
      and "k' \<notin> InstanceID ` snd ` set es"
  shows "Load (m p') k' = Load (m p) k'"
  using assms
proof (induction es arbitrary: as ids p)
  case Nil
  then show ?case by simp
next
  case (Cons e es)
  obtain k v where e: "e = (k, v)" by (cases e)
  from Cons.prems(1) obtain g as1 ids1 p1 where
    step: "associate_visit P master (k, v) (as, ids, p) = Inr (g, (as1, ids1, p1))"
    by (auto simp: e split: sum.splits)
  from Cons.prems(2) have ne: "k' \<noteq> InstanceID v" and rest: "k' \<notin> InstanceID ` snd ` set es"
    by (auto simp: e)
  have l1: "Load (m p1) k' = Load (m p) k'"
    using associate_visit_Load [OF step ne] .
  show ?case
  proof (cases g)
    case True
    with Cons.prems(1) step have "Range_entries (associate_visit P master) es (as1, ids1, p1) = Inr (go_on, (as', ids', p'))"
      by (simp add: e)
    from Cons.IH [OF this rest] l1 show ?thesis by simp
  next
    case False
    with Cons.prems(1) step have "p' = p1" by (simp add: e)
    with l1 show ?thesis by simp
  qed
qed

text \<open>
  C10. When the association call fails for a node, the iteration over the registry stops
  there: that node and the nodes after it keep their entries, and the function returns
  the task ids collected before, with no error.
\<close>

theorem allocateEIPForInstance_association_failure:
  assumes alloc: "allocateAddresses K P num p = (Inr (eips, taskID), p1)"
      and wait: "describeVpcTaskResult K P taskID p1 = (None, p2)"
      and desc: "describeAddresses P eips [] p2 = (Inr (Some eipAddresses), p3)"
      and split: "m p3 = pre @ (k, v) # post"
      and keys: "distinct (map fst (m p3))" "\<forall>(k', v') \<in> set (m p3). InstanceID v' = k'"
      and before: "Range_entries (associate_visit P master) pre (eipAddresses, [], p3)
                     = Inr (True, (a # rest, eipIds, p4))"
      and elig: "Master v = master" "PublicIPAddress v = None"
      and fail: "associateAddress P (AddressId a) (InstanceID v) p4 = (Inl err, p5)"
  shows "allocateEIPForInstance K P num master p = (Inr eipIds, p5)
       \<and> trace p5 = trace p4 @ [CallAssociateAddress (AddressId a) (InstanceID v)]
       \<and> (\<forall>(k', v') \<in> set ((k, v) # post). Load (m p5) k' = Some v')"
proof -
  have visit: "associate_visit P master (k, v) (a # rest, eipIds, p4)
                 = Inr (False, (a # rest, eipIds, p5))"
    using elig fail by (simp add: associate_visit_def Let_def)
  have range: "Range_entries (associate_visit P master) (m p3) (eipAddresses, [], p3)
                 = Inr (False, (a # rest, eipIds, p5))"
    unfolding split by (simp add: Range_entries_append before visit)
  have result: "allocateEIPForInstance K P num master p = (Inr eipIds, p5)"
    by (simp add: allocateEIPForInstance_def alloc wait desc range)
  have p5: "p5 = record_call (CallAssociateAddress (AddressId a) (InstanceID v)) p4"
    using associateAddress_state [OF fail] .
  have untouched: "Load (m p5) k' = Some v'" if mem: "(k', v') \<in> set ((k, v) # post)" for k' v'
  proof -
    from mem split have in3: "(k', v') \<in> set (m p3)" by auto
    with keys(1) have l3: "Load (m p3) k' = Some v'"
      by (simp add: Load_def)
    from keys(1) mem split have "k' \<notin> fst ` set pre"
      by (auto simp: rev_image_eqI)
    moreover from keys(2) split have "\<forall>(k'', v'') \<in> set pre. InstanceID v'' = k''"
      by auto
    ultimately have "k' \<notin> InstanceID ` snd ` set pre"
      by force
    from Range_entries_associate_Load [OF before this] l3 show ?thesis
      by (simp add: p5)
  qed
  from result p5 untouched show ?thesis
    by auto
qed


lemma Load_foldl_pair_store_other:
  "k \<notin> InstanceID ` snd ` set zs \<Longrightarrow> Load (foldl pair_store r zs) k = Load r k"
  by (induction zs arbitrary: r) (auto simp: pair_store_def Load_Store)

lemma Load_foldl_pair_store:
  assumes "distinct (map (\<lambda>y. InstanceID (snd y)) zs)" and "z \<in> set zs"
  shows "Load (foldl pair_store r zs) (InstanceID (snd z)) = Some (with_eip (snd z) (fst z))"
  using assms
proof (induction zs arbitrary: r)
  case Nil
  then show ?case by simp
next
  case (Cons y zs)
  show ?case
  proof (cases "z = y")
    case True
    with Cons.prems(1) have "InstanceID (snd z) \<notin> InstanceID ` snd ` set zs"
      by auto
    then have "Load (foldl pair_store (pair_store r y) zs) (InstanceID (snd z))
                 = Load (pair_store r y) (InstanceID (snd z))"
      by (rule Load_foldl_pair_store_other)
    also have "\<dots> = Some (with_eip (snd z) (fst z))"
      by (simp add: pair_store_def Load_Store True)
    finally show ?thesis by simp
  next
    case False
    with Cons.prems have "z \<in> set zs" "distinct (map (\<lambda>y. InstanceID (snd y)) zs)" by auto
    from Cons.IH [OF this(2) this(1)] show ?thesis by simp
  qed
qed


lemma distinct_lacking:
  assumes "distinct (map fst es)" and "\<forall>(k, v) \<in> set es. InstanceID v = k"
  shows "distinct (map InstanceID (lacking master es))"
proof -
  from assms(2) have "map InstanceID (map snd es) = map fst es"
    by (induction es) auto
  with assms(1) have "distinct (map InstanceID (map snd es))" by (simp only:)
  then show ?thesis
    unfolding lacking_def by (rule distinct_map_filter)
qed

lemma ParseUint_11: "ParseUint ''11'' = Some 11"
  by (simp add: ParseUint_def digit_of_def)

lemma ParseUint_21: "ParseUint ''21'' = Some 21"
  by (simp add: ParseUint_def digit_of_def)

lemma trace_p_launched: "trace p_launched = []"
  by (simp add: p_launched_def NewProvider_def)

lemma m_p_described:
  "m p_described = [(''ins-1'', launched_node K0 True ''ins-1''),
                    (''ins-2'', launched_node K0 True ''ins-2'')]"
  by (simp add: p_described_def p_launched_def)

lemma ex_alloc:
  "allocateAddresses K0 P_eip 2 p_launched
     = (Inr ([''eip-1'', ''eip-2''], 11),
        record_call (CallAllocateAddresses 2 (cluster_tags K0 p_launched)) p_launched)"
  by (simp add: allocateAddresses_def P_eip_def Let_def ParseUint_11)

lemma ex_wait:
  "describeVpcTaskResult K0 P_eip 11
      (record_call (CallAllocateAddresses 2 (cluster_tags K0 p_launched)) p_launched)
     = (None, record_call (CallDescribeTaskResult 11)
          (record_call (CallAllocateAddresses 2 (cluster_tags K0 p_launched)) p_launched))"
  by (simp add: describeVpcTaskResult_def describeVpcTaskResult_poll_def P_eip_def K0_def Let_def
      numeral_3_eq_3 ToUpper_def is_ascii_def upper_char_def)

lemma ex_desc:
  "describeAddresses P_eip [''eip-1'', ''eip-2''] []
      (record_call (CallDescribeTaskResult 11)
          (record_call (CallAllocateAddresses 2 (cluster_tags K0 p_launched)) p_launched))
     = (Inr (Some two_addresses), p_described)"
  by (simp add: describeAddresses_def describeAddresses_request_def P_eip_def Let_def
       p_described_def record_call_def trace_p_launched)


lemma ex_alloc_refused:
  "allocateAddresses K0 P_eip_refused 2 p_launched
     = (Inr ([''eip-1'', ''eip-2''], 11),
        record_call (CallAllocateAddresses 2 (cluster_tags K0 p_launched)) p_launched)"
  by (simp add: allocateAddresses_def P_eip_refused_def P_eip_def Let_def ParseUint_11)

lemma ex_wait_refused:
  "describeVpcTaskResult K0 P_eip_refused 11
      (record_call (CallAllocateAddresses 2 (cluster_tags K0 p_launched)) p_launched)
     = (None, record_call (CallDescribeTaskResult 11)
          (record_call (CallAllocateAddresses 2 (cluster_tags K0 p_launched)) p_launched))"
  by (simp add: describeVpcTaskResult_def describeVpcTaskResult_poll_def P_eip_refused_def
      P_eip_def K0_def Let_def numeral_3_eq_3 ToUpper_def is_ascii_def upper_char_def)

lemma ex_desc_refused:
  "describeAddresses P_eip_refused [''eip-1'', ''eip-2''] []
      (record_call (CallDescribeTaskResult 11)
          (record_call (CallAllocateAddresses 2 (cluster_tags K0 p_launched)) p_launched))
     = (Inr (Some two_addresses), p_described)"
  by (simp add: describeAddresses_def describeAddresses_request_def P_eip_refused_def P_eip_def
       Let_def p_described_def record_call_def trace_p_launched)

lemma launched_fields:
  "Master (launched_node K master i) = master"
  "PublicIPAddress (launched_node K master i) = None"
  "EipAllocationIds (launched_node K master i) = []"
  "InstanceID (launched_node K master i) = i"
  by (simp_all add: launched_node_def zero_node_def)

theorem allocateEIPForInstance_association_failure_witness:
  "allocateEIPForInstance K0 P_eip_refused 2 True p_launched
     = (Inr [21],
        record_call (CallAssociateAddress ''eip-2'' ''ins-2'')
          ((record_call (CallAssociateAddress ''eip-1'' ''ins-1'') p_described)
             \<lparr>m := Store (m p_described) ''ins-1''
                     (with_eip (launched_node K0 True ''ins-1'') (two_addresses ! 0))\<rparr>))
   \<and> Load (m (snd (allocateEIPForInstance K0 P_eip_refused 2 True p_launched))) ''ins-2''
       = Some (launched_node K0 True ''ins-2'')"
proof -
  define p4 where "p4 = (record_call (CallAssociateAddress ''eip-1'' ''ins-1'') p_described)
             \<lparr>m := Store (m p_described) ''ins-1''
                     (with_eip (launched_node K0 True ''ins-1'') (two_addresses ! 0))\<rparr>"
  have split: "m p_described = [(''ins-1'', launched_node K0 True ''ins-1'')]
                 @ (''ins-2'', launched_node K0 True ''ins-2'') # []"
    by (simp add: m_p_described)
  have keys: "distinct (map fst (m p_described))"
    "\<forall>(k', v') \<in> set (m p_described). InstanceID v' = k'"
    by (simp_all add: m_p_described launched_fields)
  have before: "Range_entries (associate_visit P_eip_refused True)
                  [(''ins-1'', launched_node K0 True ''ins-1'')] (two_addresses, [], p_described)
                = Inr (True, (\<lparr>AddressId = ''eip-2'', AddressIp = ''2.2.2.2''\<rparr> # [], [21], p4))"
    by (simp add: associate_visit_def launched_fields two_addresses_def associateAddress_def
          P_eip_refused_def P_eip_def Let_def ParseUint_21 p4_def)
  have fail: "associateAddress P_eip_refused
                (AddressId \<lparr>AddressId = ''eip-2'', AddressIp = ''2.2.2.2''\<rparr>)
                (InstanceID (launched_node K0 True ''ins-2'')) p4
              = (Inl (SdkError ''refused''), record_call (CallAssociateAddress ''eip-2'' ''ins-2'') p4)"
    by (simp add: associateAddress_def P_eip_refused_def P_eip_def Let_def launched_fields)
  from allocateEIPForInstance_association_failure
         [OF ex_alloc_refused ex_wait_refused ex_desc_refused split keys before
             launched_fields(1) launched_fields(2) fail]
  show ?thesis
    by (simp add: p4_def)
qed


lemma Range_entries_associate_success:
  assumes enough: "length (lacking master es) \<le> length as"
      and answers: "association_answers P (trace p) (zip as (lacking master es)) = map Inr strs"
      and parsed: "map ParseUint strs = map Some tids"
  shows "\<exists>p'. Range_entries (associate_visit P master) es (as, ids, p)
             = Inr (True, (drop (length (lacking master es)) as, ids @ tids, p'))
         \<and> trace p' = trace p @ map pair_call (zip as (lacking master es))
         \<and> m p' = foldl pair_store (m p) (zip as (lacking master es))"
  using enough answers parsed
proof (induction es arbitrary: as ids p strs tids)
  case Nil
  then have "strs = []" "tids = []"
    by (auto simp: lacking_def)
  then show ?case by (simp add: lacking_def)
next
  case (Cons e es)
  obtain k v where e: "e = (k, v)" by (cases e)
  show ?case
  proof (cases "Master v = master \<and> PublicIPAddress v = None")
    case False
    then have lk: "lacking master (e # es) = lacking master es"
      by (auto simp: lacking_def e)
    have visit: "associate_visit P master e (as, ids, p) = Inr (True, (as, ids, p))"
      using False by (auto simp: associate_visit_def e)
    from Cons.prems lk have 1: "length (lacking master es) \<le> length as"
      and 2: "association_answers P (trace p) (zip as (lacking master es)) = map Inr strs"
      by simp_all
    from Cons.IH [OF 1 2 Cons.prems(3), of ids] show ?thesis
      by (simp add: visit lk)
  next
    case True
    then have lk: "lacking master (e # es) = v # lacking master es"
      by (auto simp: lacking_def e)
    with Cons.prems(1) obtain a as' where as: "as = a # as'"
      by (cases as) auto
    from Cons.prems(2) obtain s strs' where
      strs: "strs = s # strs'"
      and ans: "AssociateAddress P (trace p) (AddressId a) (InstanceID v) = Inr s"
      and rest: "association_answers P (trace p @ [pair_call (a, v)]) (zip as' (lacking master es))
                   = map Inr strs'"
      by (cases strs) (auto simp: lk as)
    from Cons.prems(3) strs obtain t tids' where
      tids: "tids = t # tids'" and t: "ParseUint s = Some t"
      and parsed': "map ParseUint strs' = map Some tids'"
      by (cases tids) auto
    have call: "associateAddress P (AddressId a) (InstanceID v) p
            = (Inr t, record_call (CallAssociateAddress (AddressId a) (InstanceID v)) p)"
      by (simp add: associateAddress_def Let_def ans t)
    define p1 where "p1 = (record_call (CallAssociateAddress (AddressId a) (InstanceID v)) p)
        \<lparr>m := Store (m p) (InstanceID v) (with_eip v a)\<rparr>"
    have visit: "associate_visit P master e (a # as', ids, p) = Inr (True, (as', ids @ [t], p1))"
      using True by (simp add: associate_visit_def e Let_def call p1_def)
    have tr1: "trace p1 = trace p @ [pair_call (a, v)]"
      by (simp add: p1_def pair_call_def)
    from Cons.prems(1) lk as have 1: "length (lacking master es) \<le> length as'" by simp
    from rest have 2: "association_answers P (trace p1) (zip as' (lacking master es)) = map Inr strs'"
      by (simp only: tr1)
    from Cons.IH [OF 1 2 parsed', of "ids @ [t]"] obtain p' where
      r: "Range_entries (associate_visit P master) es (as', ids @ [t], p1)
            = Inr (True, (drop (length (lacking master es)) as', (ids @ [t]) @ tids', p'))"
      and tr: "trace p' = trace p1 @ map pair_call (zip as' (lacking master es))"
      and mm: "m p' = foldl pair_store (m p1) (zip as' (lacking master es))"
      by (elim exE conjE)
    have a: "Range_entries (associate_visit P master) (e # es) (as, ids, p)
            = Inr (True, (drop (length (lacking master (e # es))) as, ids @ tids, p'))"
      by (simp add: visit r lk as tids)
    have b: "trace p' = trace p @ map pair_call (zip as (lacking master (e # es)))"
      by (simp add: tr lk as tr1)
    have c: "m p' = foldl pair_store (m p) (zip as (lacking master (e # es)))"
      by (simp add: mm lk as p1_def pair_store_def)
    show ?thesis
      by (rule exI [of _ p']) (intro conjI a b c)
  qed
qed

lemma association_answers_length:
  "length (association_answers P h zs) = length zs"
  by (induction zs arbitrary: h) simp_all

text \<open>
  C5. As many addresses are allocated as the registry has nodes of the role that lack a
  public address, and the provider answers each association request, as the requests
  are made one after the other, with a task id. Then the function returns exactly these
  task ids, in the order of the requests, and awaits none of them: the requests made
  after the addresses were described are the association requests alone. Each such node
  is stored with exactly one allocated address and one public address, the addresses are
  paired with the nodes in iteration order, no address is associated to two nodes, and
  nothing else in the registry changes.
\<close>

theorem allocateEIPForInstance_pairing:
  assumes alloc: "allocateAddresses K P num p = (Inr (eips, taskID), p1)"
      and wait: "describeVpcTaskResult K P taskID p1 = (None, p2)"
      and desc: "describeAddresses P eips [] p2 = (Inr (Some eipAddresses), p3)"
      and answers: "association_answers P (trace p3) (zip eipAddresses (lacking master (m p3)))
                      = map Inr taskIdStrs"
      and parsed: "map ParseUint taskIdStrs = map Some taskIds"
      and count: "length (lacking master (m p3)) = length eipAddresses"
      and keys: "distinct (map fst (m p3))" "\<forall>(k, v) \<in> set (m p3). InstanceID v = k"
      and fresh: "\<forall>v \<in> set (lacking master (m p3)). EipAllocationIds v = []"
      and addrs: "distinct (map AddressId eipAddresses)"
  shows "\<exists>p'. allocateEIPForInstance K P num master p = (Inr taskIds, p')
        \<and> length taskIds = length eipAddresses
        \<and> (\<forall>j < length eipAddresses.
              \<exists>v'. Load (m p') (InstanceID (lacking master (m p3) ! j)) = Some v'
                \<and> EipAllocationIds v' = [AddressId (eipAddresses ! j)]
                \<and> PublicIPAddress v' = Some [AddressIp (eipAddresses ! j)])
        \<and> (\<forall>k. k \<notin> InstanceID ` set (lacking master (m p3)) \<longrightarrow> Load (m p') k = Load (m p3) k)
        \<and> trace p' = trace p3 @ map pair_call (zip eipAddresses (lacking master (m p3)))
        \<and> (\<forall>i < length eipAddresses. \<forall>j < length eipAddresses.
              AddressId (eipAddresses ! i) = AddressId (eipAddresses ! j) \<longrightarrow>
              InstanceID (lacking master (m p3) ! i) = InstanceID (lacking master (m p3) ! j))"
proof -
  define E where "E = lacking master (m p3)"
  define zs where "zs = zip eipAddresses E"
  have len: "length E = length eipAddresses"
    using count by (simp add: E_def)
  have enough: "length (lacking master (m p3)) \<le> length eipAddresses"
    using count by simp
  from Range_entries_associate_success [OF enough answers parsed, of "[]"]
  obtain p' where
    r: "Range_entries (associate_visit P master) (m p3) (eipAddresses, [], p3)
          = Inr (True, (drop (length E) eipAddresses, taskIds, p'))"
    and tr: "trace p' = trace p3 @ map pair_call zs"
    and mm: "m p' = foldl pair_store (m p3) zs"
    by (auto simp: E_def zs_def)
  have result: "allocateEIPForInstance K P num master p = (Inr taskIds, p')"
    by (simp add: allocateEIPForInstance_def alloc wait desc r)
  have "length (map ParseUint taskIdStrs) = length (map Some taskIds)"
    by (simp only: parsed)
  moreover have "length (association_answers P (trace p3) zs) = length (map Inr taskIdStrs :: (string + string) list)"
    using answers by (simp only: zs_def E_def)
  ultimately have l: "length taskIds = length eipAddresses"
    by (simp add: association_answers_length zs_def len)
  have snd_zs: "map snd zs = E" and fst_zs: "map fst zs = eipAddresses"
    using len by (simp_all add: zs_def)
  have dE: "distinct (map InstanceID E)"
    unfolding E_def using keys by (rule distinct_lacking)
  have "map (\<lambda>y. InstanceID (snd y)) zs = map InstanceID (map snd zs)"
    by (simp add: comp_def)
  then have dz: "distinct (map (\<lambda>y. InstanceID (snd y)) zs)"
    using dE by (simp only: snd_zs)
  have paired: "\<exists>v'. Load (m p') (InstanceID (E ! j)) = Some v'
                \<and> EipAllocationIds v' = [AddressId (eipAddresses ! j)]
                \<and> PublicIPAddress v' = Some [AddressIp (eipAddresses ! j)]"
    if j: "j < length eipAddresses" for j
  proof -
    from j len have zj: "zs ! j = (eipAddresses ! j, E ! j)" and jz: "j < length zs"
      by (simp_all add: zs_def)
    from jz have mem: "zs ! j \<in> set zs"
      by (rule nth_mem)
    from j len have "E ! j \<in> set E" by simp
    then have lack: "PublicIPAddress (E ! j) = None" and none: "EipAllocationIds (E ! j) = []"
      using fresh by (auto simp: E_def lacking_def)
    from Load_foldl_pair_store [OF dz mem, of "m p3"]
    have "Load (m p') (InstanceID (E ! j)) = Some (with_eip (E ! j) (eipAddresses ! j))"
      by (simp add: mm zj)
    then show ?thesis
      by (simp add: with_eip_def lack none)
  qed
  have others: "Load (m p') k = Load (m p3) k" if "k \<notin> InstanceID ` set E" for k
  proof -
    have "InstanceID ` snd ` set zs = InstanceID ` set (map snd zs)"
      by simp
    then have "InstanceID ` snd ` set zs = InstanceID ` set E"
      by (simp only: snd_zs)
    with that have "k \<notin> InstanceID ` snd ` set zs" by simp
    then show ?thesis
      by (simp add: mm Load_foldl_pair_store_other)
  qed
  have once: "InstanceID (E ! i) = InstanceID (E ! j)"
    if "i < length eipAddresses" "j < length eipAddresses"
       "AddressId (eipAddresses ! i) = AddressId (eipAddresses ! j)" for i j
  proof -
    from that have "map AddressId eipAddresses ! i = map AddressId eipAddresses ! j"
      by simp
    with nth_eq_iff_index_eq [OF addrs, of i j] that have "i = j"
      by simp
    then show ?thesis by simp
  qed
  from result l paired others tr once show ?thesis
    unfolding E_def zs_def by blast
qed


lemma lacking_p_described:
  "lacking True (m p_described) = [launched_node K0 True ''ins-1'', launched_node K0 True ''ins-2'']"
  by (simp add: lacking_def m_p_described launched_fields)

lemma ParseUint_22: "ParseUint ''22'' = Some 22"
  by (simp add: ParseUint_def digit_of_def)

theorem allocateEIPForInstance_pairing_witness:
  "association_answers P_eip (trace p_described) (zip two_addresses (lacking True (m p_described)))
     = map Inr [''21'', ''22'']
   \<and> map ParseUint [''21'', ''22''] = map Some [21, 22]
   \<and> (\<exists>p'. allocateEIPForInstance K0 P_eip 2 True p_launched = (Inr [21, 22], p')
       \<and> (\<exists>v'. Load (m p') ''ins-1'' = Some v' \<and> EipAllocationIds v' = [''eip-1'']
             \<and> PublicIPAddress v' = Some [''1.1.1.1''])
       \<and> (\<exists>v'. Load (m p') ''ins-2'' = Some v' \<and> EipAllocationIds v' = [''eip-2'']
             \<and> PublicIPAddress v' = Some [''2.2.2.2''])
       \<and> trace p' = trace p_described @
             [CallAssociateAddress ''eip-1'' ''ins-1'', CallAssociateAddress ''eip-2'' ''ins-2''])"
proof -
  have answers: "association_answers P_eip (trace p_described)
                   (zip two_addresses (lacking True (m p_described))) = map Inr [''21'', ''22'']"
    by (simp add: lacking_p_described two_addresses_def P_eip_def launched_fields)
  have parsed: "map ParseUint [''21'', ''22''] = map Some [21, 22]"
    by (simp add: ParseUint_21 ParseUint_22)
  have count: "length (lacking True (m p_described)) = length two_addresses"
    by (simp add: lacking_p_described two_addresses_def)
  have keys: "distinct (map fst (m p_described))"
    "\<forall>(k, v) \<in> set (m p_described). InstanceID v = k"
    by (simp_all add: m_p_described launched_fields)
  have fresh: "\<forall>v \<in> set (lacking True (m p_described)). EipAllocationIds v = []"
    by (simp add: lacking_p_described launched_fields)
  have addrs: "distinct (map AddressId two_addresses)"
    by (simp add: two_addresses_def)
  from allocateEIPForInstance_pairing
         [OF ex_alloc ex_wait ex_desc answers parsed count keys fresh addrs]
  obtain p' where
    r: "allocateEIPForInstance K0 P_eip 2 True p_launched = (Inr [21, 22], p')"
    and paired: "\<forall>j < length two_addresses.
              \<exists>v'. Load (m p') (InstanceID (lacking True (m p_described) ! j)) = Some v'
                \<and> EipAllocationIds v' = [AddressId (two_addresses ! j)]
                \<and> PublicIPAddress v' = Some [AddressIp (two_addresses ! j)]"
    and tr: "trace p' = trace p_described @ map pair_call (zip two_addresses (lacking True (m p_described)))"
    by (elim exE conjE)
  have two: "length two_addresses = 2"
    by (simp add: two_addresses_def)
  from paired two have "\<exists>v'. Load (m p') (InstanceID (lacking True (m p_described) ! 0)) = Some v'
                \<and> EipAllocationIds v' = [AddressId (two_addresses ! 0)]
                \<and> PublicIPAddress v' = Some [AddressIp (two_addresses ! 0)]"
    by simp
  then have first: "\<exists>v'. Load (m p') ''ins-1'' = Some v' \<and> EipAllocationIds v' = [''eip-1'']
           \<and> PublicIPAddress v' = Some [''1.1.1.1'']"
    by (simp add: lacking_p_described launched_fields two_addresses_def)
  from paired two have "\<exists>v'. Load (m p') (InstanceID (lacking True (m p_described) ! 1)) = Some v'
                \<and> EipAllocationIds v' = [AddressId (two_addresses ! 1)]
                \<and> PublicIPAddress v' = Some [AddressIp (two_addresses ! 1)]"
    by simp
  then have second: "\<exists>v'. Load (m p') ''ins-2'' = Some v' \<and> EipAllocationIds v' = [''eip-2'']
           \<and> PublicIPAddress v' = Some [''2.2.2.2'']"
    by (simp add: lacking_p_described launched_fields two_addresses_def)
  have calls: "map pair_call (zip two_addresses (lacking True (m p_described)))
                 = [CallAssociateAddress ''eip-1'' ''ins-1'', CallAssociateAddress ''eip-2'' ''ins-2'']"
    by (simp add: lacking_p_described launched_fields two_addresses_def pair_call_def)
  have "allocateEIPForInstance K0 P_eip 2 True p_launched = (Inr [21, 22], p')
       \<and> (\<exists>v'. Load (m p') ''ins-1'' = Some v' \<and> EipAllocationIds v' = [''eip-1'']
             \<and> PublicIPAddress v' = Some [''1.1.1.1''])
       \<and> (\<exists>v'. Load (m p') ''ins-2'' = Some v' \<and> EipAllocationIds v' = [''eip-2'']
             \<and> PublicIPAddress v' = Some [''2.2.2.2''])
       \<and> trace p' = trace p_described @
             [CallAssociateAddress ''eip-1'' ''ins-1'', CallAssociateAddress ''eip-2'' ''ins-2'']"
    using r first second tr calls by simp
  then have "\<exists>p'. allocateEIPForInstance K0 P_eip 2 True p_launched = (Inr [21, 22], p')
       \<and> (\<exists>v'. Load (m p') ''ins-1'' = Some v' \<and> EipAllocationIds v' = [''eip-1'']
             \<and> PublicIPAddress v' = Some [''1.1.1.1''])
       \<and> (\<exists>v'. Load (m p') ''ins-2'' = Some v' \<and> EipAllocationIds v' = [''eip-2'']
             \<and> PublicIPAddress v' = Some [''2.2.2.2''])
       \<and> trace p' = trace p_described @
             [CallAssociateAddress ''eip-1'' ''ins-1'', CallAssociateAddress ''eip-2'' ''ins-2'']"
    by (rule exI [of _ p'])
  with answers parsed show ?thesis
    by (intro conjI)
qed

section \<open>Reconciling the security group's rules\<close>

lemma scan_port_flags:
  assumes "scan_port cidr rule ps f0 = Inr f"
  shows "hasSSHPort f = (hasSSHPort f0 \<or> fst (Atoi ps) = 22)
       \<and> hasAPIServerPort f = (hasAPIServerPort f0 \<or> fst (Atoi ps) = 6443)
       \<and> hasKubeletPort f = (hasKubeletPort f0 \<or> fst (Atoi ps) = 10250)
       \<and> hasVXlanPort f = (hasVXlanPort f0 \<or> fst (Atoi ps) = 8472)
       \<and> hasUIPort f = (hasUIPort f0 \<or> fst (Atoi ps) = 8999)
       \<and> hasEtcdServerPort f = (hasEtcdServerPort f0 \<or> fst (Atoi ps) = 2379
           \<and> (CidrBlock rule = Some cidr \<or> CidrBlock rule = Some ipRange))
       \<and> hasEtcdPeerPort f = (hasEtcdPeerPort f0 \<or> fst (Atoi ps) = 2380
           \<and> (CidrBlock rule = Some cidr \<or> CidrBlock rule = Some ipRange))"
proof -
  consider "fst (Atoi ps) = 22" | "fst (Atoi ps) = 6443" | "fst (Atoi ps) = 10250"
    | "fst (Atoi ps) = 8472" | "fst (Atoi ps) = 8999" | "fst (Atoi ps) = 2379"
    | "fst (Atoi ps) = 2380"
    | "fst (Atoi ps) \<notin> {22, 6443, 10250, 8472, 8999, 2379, 2380}"
    by blast
  then show ?thesis
  proof cases
    case 1
    with assms have "f = f0\<lparr>hasSSHPort := True\<rparr>"
      by (simp add: scan_port_def)
    with 1 show ?thesis by simp
  next
    case 2
    with assms have "f = f0\<lparr>hasAPIServerPort := True\<rparr>"
      by (simp add: scan_port_def)
    with 2 show ?thesis by simp
  next
    case 3
    with assms have "f = f0\<lparr>hasKubeletPort := True\<rparr>"
      by (simp add: scan_port_def)
    with 3 show ?thesis by simp
  next
    case 4
    with assms have "f = f0\<lparr>hasVXlanPort := True\<rparr>"
      by (simp add: scan_port_def)
    with 4 show ?thesis by simp
  next
    case 5
    with assms have "f = f0\<lparr>hasUIPort := True\<rparr>"
      by (simp add: scan_port_def)
    with 5 show ?thesis by simp
  next
    case 6
    show ?thesis
    proof (cases "CidrBlock rule = Some cidr \<or> CidrBlock rule = Some ipRange")
      case True
      with 6 assms have "f = f0\<lparr>hasEtcdServerPort := True\<rparr>"
        by (auto simp: scan_port_def)
      with 6 True show ?thesis by simp
    next
      case False
      with 6 assms have "f = f0"
        by (cases "CidrBlock rule") (auto simp: scan_port_def)
      with 6 False show ?thesis by simp
    qed
  next
    case 7
    show ?thesis
    proof (cases "CidrBlock rule = Some cidr \<or> CidrBlock rule = Some ipRange")
      case True
      with 7 assms have "f = f0\<lparr>hasEtcdPeerPort := True\<rparr>"
        by (auto simp: scan_port_def)
      with 7 True show ?thesis by simp
    next
      case False
      with 7 assms have "f = f0"
        by (cases "CidrBlock rule") (auto simp: scan_port_def)
      with 7 False show ?thesis by simp
    qed
  next
    case 8
    with assms have "f = f0"
      by (simp add: scan_port_def)
    with 8 show ?thesis by simp
  qed
qed

lemma scan_ports_flags:
  assumes "scan_ports cidr rule pss f0 = Inr f"
  shows "hasSSHPort f = (hasSSHPort f0 \<or> 22 \<in> (\<lambda>ps. fst (Atoi ps)) ` set pss)
       \<and> hasAPIServerPort f = (hasAPIServerPort f0 \<or> 6443 \<in> (\<lambda>ps. fst (Atoi ps)) ` set pss)
       \<and> hasKubeletPort f = (hasKubeletPort f0 \<or> 10250 \<in> (\<lambda>ps. fst (Atoi ps)) ` set pss)
       \<and> hasVXlanPort f = (hasVXlanPort f0 \<or> 8472 \<in> (\<lambda>ps. fst (Atoi ps)) ` set pss)
       \<and> hasUIPort f = (hasUIPort f0 \<or> 8999 \<in> (\<lambda>ps. fst (Atoi ps)) ` set pss)
       \<and> hasEtcdServerPort f = (hasEtcdServerPort f0 \<or> 2379 \<in> (\<lambda>ps. fst (Atoi ps)) ` set pss
           \<and> (CidrBlock rule = Some cidr \<or> CidrBlock rule = Some ipRange))
       \<and> hasEtcdPeerPort f = (hasEtcdPeerPort f0 \<or> 2380 \<in> (\<lambda>ps. fst (Atoi ps)) ` set pss
           \<and> (CidrBlock rule = Some cidr \<or> CidrBlock rule = Some ipRange))"
  using assms
proof (induction pss arbitrary: f0)
  case Nil
  then show ?case by simp
next
  case (Cons ps pss)
  from Cons.prems obtain f1 where
    one: "scan_port cidr rule ps f0 = Inr f1" and rest: "scan_ports cidr rule pss f1 = Inr f"
    by (auto split: sum.splits)
  note a = scan_port_flags [OF one]
  note b = Cons.IH [OF rest]
  have c1: "hasSSHPort f = (hasSSHPort f0 \<or> 22 \<in> (\<lambda>ps. fst (Atoi ps)) ` set (ps # pss))"
    using a [THEN conjunct1] b [THEN conjunct1] by auto
  have c2: "hasAPIServerPort f = (hasAPIServerPort f0 \<or> 6443 \<in> (\<lambda>ps. fst (Atoi ps)) ` set (ps # pss))"
    using a [THEN conjunct2, THEN conjunct1] b [THEN conjunct2, THEN conjunct1] by auto
  have c3: "hasKubeletPort f = (hasKubeletPort f0 \<or> 10250 \<in> (\<lambda>ps. fst (Atoi ps)) ` set (ps # pss))"
    using a [THEN conjunct2, THEN conjunct2, THEN conjunct1] b [THEN conjunct2, THEN conjunct2, THEN conjunct1] by auto
  have c4: "hasVXlanPort f = (hasVXlanPort f0 \<or> 8472 \<in> (\<lambda>ps. fst (Atoi ps)) ` set (ps # pss))"
    using a [THEN conjunct2, THEN conjunct2, THEN conjunct2, THEN conjunct1] b [THEN conjunct2, THEN conjunct2, THEN conjunct2, THEN conjunct1] by auto
  have c5: "hasUIPort f = (hasUIPort f0 \<or> 8999 \<in> (\<lambda>ps. fst (Atoi ps)) ` set (ps # pss))"
    using a [THEN conjunct2, THEN conjunct2, THEN conjunct2, THEN conjunct2, THEN conjunct1] b [THEN conjunct2, THEN conjunct2, THEN conjunct2, THEN conjunct2, THEN conjunct1] by auto
  have c6: "hasEtcdServerPort f = (hasEtcdServerPort f0 \<or> 2379 \<in> (\<lambda>ps. fst (Atoi ps)) ` set (ps # pss)
           \<and> (CidrBlock rule = Some cidr \<or> CidrBlock rule = Some ipRange))"
    using a [THEN conjunct2, THEN conjunct2, THEN conjunct2, THEN conjunct2, THEN conjunct2, THEN conjunct1] b [THEN conjunct2, THEN conjunct2, THEN conjunct2, THEN conjunct2, THEN conjunct2, THEN conjunct1] by auto
  have c7: "hasEtcdPeerPort f = (hasEtcdPeerPort f0 \<or> 2380 \<in> (\<lambda>ps. fst (Atoi ps)) ` set (ps # pss)
           \<and> (CidrBlock rule = Some cidr \<or> CidrBlock rule = Some ipRange))"
    using a [THEN conjunct2, THEN conjunct2, THEN conjunct2, THEN conjunct2, THEN conjunct2, THEN conjunct2] b [THEN conjunct2, THEN conjunct2, THEN conjunct2, THEN conjunct2, THEN conjunct2, THEN conjunct2] by auto
  from c1 c2 c3 c4 c5 c6 c7 show ?case by blast
qed

lemma scan_rule_flags:
  assumes "scan_rule cidr rule f0 = Inr f"
  shows "hasSSHPort f = (hasSSHPort f0 \<or> 22 \<in> set (rule_ports rule))
       \<and> hasAPIServerPort f = (hasAPIServerPort f0 \<or> 6443 \<in> set (rule_ports rule))
       \<and> hasKubeletPort f = (hasKubeletPort f0 \<or> 10250 \<in> set (rule_ports rule))
       \<and> hasVXlanPort f = (hasVXlanPort f0 \<or> 8472 \<in> set (rule_ports rule))
       \<and> hasUIPort f = (hasUIPort f0 \<or> 8999 \<in> set (rule_ports rule))
       \<and> hasEtcdServerPort f = (hasEtcdServerPort f0 \<or> 2379 \<in> set (rule_ports rule)
           \<and> (CidrBlock rule = Some cidr \<or> CidrBlock rule = Some ipRange))
       \<and> hasEtcdPeerPort f = (hasEtcdPeerPort f0 \<or> 2380 \<in> set (rule_ports rule)
           \<and> (CidrBlock rule = Some cidr \<or> CidrBlock rule = Some ipRange))"
proof -
  from assms obtain ports where
    p: "pol_Port rule = Some ports" and s: "scan_ports cidr rule (Split ports CHR '','') f0 = Inr f"
    by (auto simp: scan_rule_def split: option.splits)
  have rp: "set (rule_ports rule) = (\<lambda>ps. fst (Atoi ps)) ` set (Split ports CHR '','')"
    by (simp add: rule_ports_def p)
  from scan_ports_flags [OF s] show ?thesis
    unfolding rp .
qed

lemma scan_rules_flags:
  assumes "scan_rules cidr rules f0 = Inr f"
  shows "hasSSHPort f = (hasSSHPort f0 \<or> port_present rules 22)
       \<and> hasAPIServerPort f = (hasAPIServerPort f0 \<or> port_present rules 6443)
       \<and> hasKubeletPort f = (hasKubeletPort f0 \<or> port_present rules 10250)
       \<and> hasVXlanPort f = (hasVXlanPort f0 \<or> port_present rules 8472)
       \<and> hasUIPort f = (hasUIPort f0 \<or> port_present rules 8999)
       \<and> hasEtcdServerPort f = (hasEtcdServerPort f0 \<or> etcd_present cidr rules 2379)
       \<and> hasEtcdPeerPort f = (hasEtcdPeerPort f0 \<or> etcd_present cidr rules 2380)"
  using assms
proof (induction rules arbitrary: f0)
  case Nil
  then show ?case by (simp add: port_present_def etcd_present_def)
next
  case (Cons rule rules)
  from Cons.prems obtain f1 where
    one: "scan_rule cidr rule f0 = Inr f1" and rest: "scan_rules cidr rules f1 = Inr f"
    by (auto split: sum.splits)
  note a = scan_rule_flags [OF one]
  note b = Cons.IH [OF rest]
  have c1: "hasSSHPort f = (hasSSHPort f0 \<or> port_present (rule # rules) 22)"
    using a [THEN conjunct1] b [THEN conjunct1] by (auto simp: port_present_def etcd_present_def)
  have c2: "hasAPIServerPort f = (hasAPIServerPort f0 \<or> port_present (rule # rules) 6443)"
    using a [THEN conjunct2, THEN conjunct1] b [THEN conjunct2, THEN conjunct1] by (auto simp: port_present_def etcd_present_def)
  have c3: "hasKubeletPort f = (hasKubeletPort f0 \<or> port_present (rule # rules) 10250)"
    using a [THEN conjunct2, THEN conjunct2, THEN conjunct1] b [THEN conjunct2, THEN conjunct2, THEN conjunct1] by (auto simp: port_present_def etcd_present_def)
  have c4: "hasVXlanPort f = (hasVXlanPort f0 \<or> port_present (rule # rules) 8472)"
    using a [THEN conjunct2, THEN conjunct2, THEN conjunct2, THEN conjunct1] b [THEN conjunct2, THEN conjunct2, THEN conjunct2, THEN conjunct1] by (auto simp: port_present_def etcd_present_def)
  have c5: "hasUIPort f = (hasUIPort f0 \<or> port_present (rule # rules) 8999)"
    using a [THEN conjunct2, THEN conjunct2, THEN conjunct2, THEN conjunct2, THEN conjunct1] b [THEN conjunct2, THEN conjunct2, THEN conjunct2, THEN conjunct2, THEN conjunct1] by (auto simp: port_present_def etcd_present_def)
  have c6: "hasEtcdServerPort f = (hasEtcdServerPort f0 \<or> etcd_present cidr (rule # rules) 2379)"
    using a [THEN conjunct2, THEN conjunct2, THEN conjunct2, THEN conjunct2, THEN conjunct2, THEN conjunct1] b [THEN conjunct2, THEN conjunct2, THEN conjunct2, THEN conjunct2, THEN conjunct2, THEN conjunct1] by (auto simp: port_present_def etcd_present_def)
  have c7: "hasEtcdPeerPort f = (hasEtcdPeerPort f0 \<or> etcd_present cidr (rule # rules) 2380)"
    using a [THEN conjunct2, THEN conjunct2, THEN conjunct2, THEN conjunct2, THEN conjunct2, THEN conjunct2] b [THEN conjunct2, THEN conjunct2, THEN conjunct2, THEN conjunct2, THEN conjunct2, THEN conjunct2] by (auto simp: port_present_def etcd_present_def)
  from c1 c2 c3 c4 c5 c6 c7 show ?case by blast
qed

lemma scan_port_total:
  assumes "CidrBlock rule \<noteq> None"
  shows "\<exists>f. scan_port cidr rule ps f0 = Inr f"
proof -
  from assms obtain b where "CidrBlock rule = Some b" by auto
  then show ?thesis
    by (simp add: scan_port_def Let_def)
qed

lemma scan_ports_total:
  assumes "CidrBlock rule \<noteq> None"
  shows "\<exists>f. scan_ports cidr rule pss f0 = Inr f"
proof (induction pss arbitrary: f0)
  case Nil
  show ?case by simp
next
  case (Cons ps pss)
  from scan_port_total [OF assms] obtain f1 where "scan_port cidr rule ps f0 = Inr f1"
    by blast
  with Cons.IH [of f1] show ?case by simp
qed

lemma scan_rules_total:
  assumes "\<forall>rule \<in> set rules. pol_Port rule \<noteq> None \<and> CidrBlock rule \<noteq> None"
  shows "\<exists>f. scan_rules cidr rules f0 = Inr f"
  using assms
proof (induction rules arbitrary: f0)
  case Nil
  show ?case by simp
next
  case (Cons rule rules)
  from Cons.prems obtain ports where p: "pol_Port rule = Some ports" and c: "CidrBlock rule \<noteq> None"
    by auto
  from scan_ports_total [OF c] obtain f1 where "scan_ports cidr rule (Split ports CHR '','') f0 = Inr f1"
    by blast
  then have "scan_rule cidr rule f0 = Inr f1"
    by (simp add: scan_rule_def p)
  moreover from Cons.prems have "\<forall>rule \<in> set rules. pol_Port rule \<noteq> None \<and> CidrBlock rule \<noteq> None"
    by simp
  from Cons.IH [OF this, of f1] obtain f where "scan_rules cidr rules f1 = Inr f"
    by blast
  ultimately show ?case by simp
qed

lemma perms_of_missing:
  assumes "scan_rules cidr rules no_flags = Inr f"
  shows "perms_of p cidr f = map snd (filter (\<lambda>nr. missing cidr rules (fst nr)) (required_rules p cidr))"
proof -
  note fl = scan_rules_flags [OF assms]
  have 1: "hasSSHPort f = port_present rules 22"
    using fl [THEN conjunct1] by (simp add: no_flags_def)
  have 2: "hasAPIServerPort f = port_present rules 6443"
    using fl [THEN conjunct2, THEN conjunct1] by (simp add: no_flags_def)
  have 3: "hasKubeletPort f = port_present rules 10250"
    using fl [THEN conjunct2, THEN conjunct2, THEN conjunct1] by (simp add: no_flags_def)
  have 4: "hasVXlanPort f = port_present rules 8472"
    using fl [THEN conjunct2, THEN conjunct2, THEN conjunct2, THEN conjunct1] by (simp add: no_flags_def)
  have 5: "hasUIPort f = port_present rules 8999"
    using fl [THEN conjunct2, THEN conjunct2, THEN conjunct2, THEN conjunct2, THEN conjunct1]
    by (simp add: no_flags_def)
  have 6: "hasEtcdServerPort f = etcd_present cidr rules 2379"
    using fl [THEN conjunct2, THEN conjunct2, THEN conjunct2, THEN conjunct2, THEN conjunct2, THEN conjunct1]
    by (simp add: no_flags_def)
  have 7: "hasEtcdPeerPort f = etcd_present cidr rules 2380"
    using fl [THEN conjunct2, THEN conjunct2, THEN conjunct2, THEN conjunct2, THEN conjunct2, THEN conjunct2]
    by (simp add: no_flags_def)
  show ?thesis
    by (simp add: perms_of_def required_rules_def missing_def 1 2 3 4 5 6 7)
qed

lemma getSubnetCidr_state:
  "getSubnetCidr P q = (r, q') \<Longrightarrow> q' = record_call (CallDescribeSubnets [SubnetID q] []) q"
  by (auto simp: getSubnetCidr_def Let_def split: sum.splits option.splits list.splits)

lemma record_call_fields [simp]:
  "Network (record_call cl p) = Network p"
  "UI (record_call cl p) = UI p"
  "SecurityGroupIds (record_call cl p) = SecurityGroupIds p"
  "SubnetID (record_call cl p) = SubnetID p"
  "VpcID (record_call cl p) = VpcID p"
  by (simp_all add: record_call_def)

lemma create_rules_trace:
  "trace (snd (create_rules P perms hasEgress p)) = trace p
     @ (if perms = [] then [] else [CallCreateSecurityGroupPolicies (SecurityGroupIds p) perms []])
     @ (if (perms = [] \<or> CreateSecurityGroupPolicies P (trace p) (SecurityGroupIds p) perms [] = None)
           \<and> \<not> hasEgress
        then [CallCreateSecurityGroupPolicies (SecurityGroupIds p) [] [egress_rule]] else [])"
  by (auto simp: create_rules_def split: option.splits)

lemma create_rules_nothing:
  "create_rules P [] True p = (None, p)"
  by (simp add: create_rules_def)

lemma configDefaultSecurityPermission_reduce:
  assumes desc: "DescribeSecurityGroupPolicies P (trace p) (SecurityGroupIds p)
                   = Inr (Some \<lparr>Ingress = Some rules, Egress = eg\<rparr>)"
      and cidr: "(if SubnetID p \<noteq> []
                  then getSubnetCidr P (record_call (CallDescribeSecurityGroupPolicies (SecurityGroupIds p)) p)
                  else (Inr subnetCidrBlock,
                        record_call (CallDescribeSecurityGroupPolicies (SecurityGroupIds p)) p))
                 = (Inr cidr, p2)"
      and wf: "\<forall>rule \<in> set rules. pol_Port rule \<noteq> None \<and> CidrBlock rule \<noteq> None"
  shows "configDefaultSecurityPermission P p
           = create_rules P (map snd (filter (\<lambda>nr. missing cidr rules (fst nr)) (required_rules p cidr)))
               (eg \<noteq> []) p2"
    and "SecurityGroupIds p2 = SecurityGroupIds p"
    and "trace p2 = trace p @ [CallDescribeSecurityGroupPolicies (SecurityGroupIds p)]
                @ (if SubnetID p \<noteq> [] then [CallDescribeSubnets [SubnetID p] []] else [])"
proof -
  define p1 where "p1 = record_call (CallDescribeSecurityGroupPolicies (SecurityGroupIds p)) p"
  have p2: "p2 = (if SubnetID p \<noteq> [] then record_call (CallDescribeSubnets [SubnetID p] []) p1 else p1)"
  proof (cases "SubnetID p = []")
    case True
    with cidr show ?thesis by (simp add: p1_def)
  next
    case False
    with cidr have "getSubnetCidr P p1 = (Inr cidr, p2)" by (simp add: p1_def)
    from getSubnetCidr_state [OF this] False show ?thesis by (simp add: p1_def)
  qed
  have same: "Network p2 = Network p" "UI p2 = UI p" "SecurityGroupIds p2 = SecurityGroupIds p"
    by (simp_all add: p2 p1_def)
  show "SecurityGroupIds p2 = SecurityGroupIds p"
    by (rule same)
  show "trace p2 = trace p @ [CallDescribeSecurityGroupPolicies (SecurityGroupIds p)]
                @ (if SubnetID p \<noteq> [] then [CallDescribeSubnets [SubnetID p] []] else [])"
    by (simp add: p2 p1_def)
  from scan_rules_total [OF wf] obtain f where f: "scan_rules cidr rules no_flags = Inr f"
    by blast
  have "required_rules p2 cidr = required_rules p cidr"
    by (simp add: required_rules_def same)
  with perms_of_missing [OF f, of p2]
  have perms: "perms_of p2 cidr f
                 = map snd (filter (\<lambda>nr. missing cidr rules (fst nr)) (required_rules p cidr))"
    by simp
  show "configDefaultSecurityPermission P p
           = create_rules P (map snd (filter (\<lambda>nr. missing cidr rules (fst nr)) (required_rules p cidr)))
               (eg \<noteq> []) p2"
    using cidr by (simp add: configDefaultSecurityPermission_def desc f perms)
qed

text \<open>
  C1, as the code has it. When the group's rules are read (every rule with a port and
  an address block), the rules created are the required rules that are missing, in one
  call: a required port that an existing rule names is not created again, except that
  the datastore ports 2379 and 2380 are created together whenever either of them is not
  named for the subnet's block or for any source. The allow-all egress rule follows in a
  call of its own when the group has no egress rule (and the first call did not fail).
  A group with every required rule and an egress rule gets no create call; on a group
  without rules the batch is every required rule. Nothing but describe and create
  requests is issued.
\<close>

theorem configDefaultSecurityPermission_delta:
  assumes desc: "DescribeSecurityGroupPolicies P (trace p) (SecurityGroupIds p)
                   = Inr (Some \<lparr>Ingress = Some rules, Egress = eg\<rparr>)"
      and cidr: "(if SubnetID p \<noteq> []
                  then getSubnetCidr P (record_call (CallDescribeSecurityGroupPolicies (SecurityGroupIds p)) p)
                  else (Inr subnetCidrBlock,
                        record_call (CallDescribeSecurityGroupPolicies (SecurityGroupIds p)) p))
                 = (Inr cidr, p2)"
      and wf: "\<forall>rule \<in> set rules. pol_Port rule \<noteq> None \<and> CidrBlock rule \<noteq> None"
  shows "let batch = map snd (filter (\<lambda>nr. missing cidr rules (fst nr)) (required_rules p cidr));
             sg = SecurityGroupIds p;
             res = configDefaultSecurityPermission P p
         in trace p2 = trace p @ [CallDescribeSecurityGroupPolicies sg]
                @ (if SubnetID p \<noteq> [] then [CallDescribeSubnets [SubnetID p] []] else [])
          \<and> trace (snd res) = trace p2
                @ (if batch = [] then [] else [CallCreateSecurityGroupPolicies sg batch []])
                @ (if (batch = [] \<or> CreateSecurityGroupPolicies P (trace p2) sg batch [] = None) \<and> eg = []
                   then [CallCreateSecurityGroupPolicies sg [] [egress_rule]] else [])
          \<and> (batch = [] \<and> eg \<noteq> [] \<longrightarrow> res = (None, p2))
          \<and> (rules = [] \<longrightarrow> batch = map snd (required_rules p cidr))"
proof -
  define batch where "batch = map snd (filter (\<lambda>nr. missing cidr rules (fst nr)) (required_rules p cidr))"
  note red = configDefaultSecurityPermission_reduce [OF desc cidr wf]
  have res: "configDefaultSecurityPermission P p = create_rules P batch (eg \<noteq> []) p2"
    using red(1) by (simp add: batch_def)
  have tr: "trace (snd (configDefaultSecurityPermission P p)) = trace p2
                @ (if batch = [] then [] else [CallCreateSecurityGroupPolicies (SecurityGroupIds p) batch []])
                @ (if (batch = [] \<or> CreateSecurityGroupPolicies P (trace p2) (SecurityGroupIds p) batch [] = None)
                      \<and> eg = []
                   then [CallCreateSecurityGroupPolicies (SecurityGroupIds p) [] [egress_rule]] else [])"
    unfolding res create_rules_trace red(2) by simp
  have zero: "configDefaultSecurityPermission P p = (None, p2)" if "batch = []" "eg \<noteq> []"
    using that by (simp add: res create_rules_nothing)
  have empty: "batch = map snd (required_rules p cidr)" if "rules = []"
    using that by (simp add: batch_def missing_def port_present_def etcd_present_def)
  from red(3) tr zero empty show ?thesis
    unfolding Let_def batch_def by blast
qed

lemma Atoi_ports:
  "fst (Atoi ''22'') = 22" "fst (Atoi ''8472'') = 8472" "fst (Atoi ''6443'') = 6443"
  "fst (Atoi ''10250'') = 10250" "fst (Atoi ''2379'') = 2379" "fst (Atoi ''2380'') = 2380"
  "fst (Atoi ''8999'') = 8999"
  by (simp_all add: Atoi_def digit_of_def)

lemma rule_ports_required:
  "rule_ports ssh_rule = [22]" "rule_ports vxlan_rule = [8472]" "rule_ports apiserver_rule = [6443]"
  "rule_ports kubelet_rule = [10250]" "rule_ports (etcd_server_rule b) = [2379]"
  "rule_ports (etcd_peer_rule b) = [2380]" "rule_ports ui_rule = [8999]"
  by (simp_all add: rule_ports_def ssh_rule_def vxlan_rule_def apiserver_rule_def kubelet_rule_def
        etcd_server_rule_def etcd_peer_rule_def ui_rule_def accept_def Atoi_ports)

lemma required_fields:
  "pol_Port (accept pr po b d) = Some po" "CidrBlock (accept pr po b d) = Some b"
  by (simp_all add: accept_def)

lemma p_group_fields:
  "SubnetID p_group = []" "SecurityGroupIds p_group = ''sg-1''" "trace p_group = []"
  "Network p_group = []" "UI p_group = False"
  by (simp_all add: p_group_def NewProvider_def)

lemma P_group_describe:
  "DescribeSecurityGroupPolicies (P_group rules eg) h g = Inr (Some \<lparr>Ingress = Some rules, Egress = eg\<rparr>)"
  by (simp add: P_group_def)

lemma wf_rules_without_peer:
  "\<forall>rule \<in> set rules_without_peer. pol_Port rule \<noteq> None \<and> CidrBlock rule \<noteq> None"
  by (simp add: rules_without_peer_def ssh_rule_def vxlan_rule_def apiserver_rule_def
        kubelet_rule_def etcd_server_rule_def required_fields)

lemma wf_rules_complete:
  "\<forall>rule \<in> set rules_complete. pol_Port rule \<noteq> None \<and> CidrBlock rule \<noteq> None"
  by (simp add: rules_complete_def ssh_rule_def vxlan_rule_def apiserver_rule_def
        kubelet_rule_def etcd_server_rule_def etcd_peer_rule_def required_fields)

lemma etcd_server_cidr: "CidrBlock (etcd_server_rule b) = Some b"
  by (simp add: etcd_server_rule_def required_fields)

lemma etcd_peer_cidr: "CidrBlock (etcd_peer_rule b) = Some b"
  by (simp add: etcd_peer_rule_def required_fields)

lemma present_without_peer:
  "port_present rules_without_peer 22" "port_present rules_without_peer 8472"
  "port_present rules_without_peer 6443" "port_present rules_without_peer 10250"
  "etcd_present subnetCidrBlock rules_without_peer 2379"
  "\<not> etcd_present subnetCidrBlock rules_without_peer 2380"
  by (simp_all add: port_present_def etcd_present_def rules_without_peer_def rule_ports_required
        etcd_server_cidr)

lemma present_complete:
  "port_present rules_complete 22" "port_present rules_complete 8472"
  "port_present rules_complete 6443" "port_present rules_complete 10250"
  "etcd_present subnetCidrBlock rules_complete 2379"
  "etcd_present subnetCidrBlock rules_complete 2380"
  by (simp_all add: port_present_def etcd_present_def rules_complete_def rule_ports_required
        etcd_server_cidr etcd_peer_cidr)

text \<open>
  The datastore port 2379 is named by an existing rule for any source, and is created
  again, because the peer port 2380 is missing.
\<close>

theorem configDefaultSecurityPermission_recreates_present_port:
  "etcd_present subnetCidrBlock rules_without_peer 2379
   \<and> DescribeSecurityGroupPolicies (P_group rules_without_peer [egress_rule]) (trace p_group)
        (SecurityGroupIds p_group)
       = Inr (Some \<lparr>Ingress = Some rules_without_peer, Egress = [egress_rule]\<rparr>)
   \<and> trace (snd (configDefaultSecurityPermission (P_group rules_without_peer [egress_rule]) p_group))
       = [CallDescribeSecurityGroupPolicies ''sg-1'',
          CallCreateSecurityGroupPolicies ''sg-1''
            [etcd_server_rule subnetCidrBlock, etcd_peer_rule subnetCidrBlock] []]"
proof -
  have cidr: "(if SubnetID p_group \<noteq> []
                  then getSubnetCidr (P_group rules_without_peer [egress_rule])
                         (record_call (CallDescribeSecurityGroupPolicies (SecurityGroupIds p_group)) p_group)
                  else (Inr subnetCidrBlock,
                        record_call (CallDescribeSecurityGroupPolicies (SecurityGroupIds p_group)) p_group))
                 = (Inr subnetCidrBlock,
                    record_call (CallDescribeSecurityGroupPolicies (SecurityGroupIds p_group)) p_group)"
    by (simp add: p_group_fields)
  have batch: "map snd (filter (\<lambda>nr. missing subnetCidrBlock rules_without_peer (fst nr))
                  (required_rules p_group subnetCidrBlock))
               = [etcd_server_rule subnetCidrBlock, etcd_peer_rule subnetCidrBlock]"
    by (simp add: required_rules_def missing_def present_without_peer p_group_fields)
  from configDefaultSecurityPermission_reduce(1) [OF P_group_describe cidr wf_rules_without_peer]
  have "trace (snd (configDefaultSecurityPermission (P_group rules_without_peer [egress_rule]) p_group))
       = [CallDescribeSecurityGroupPolicies ''sg-1'',
          CallCreateSecurityGroupPolicies ''sg-1''
            [etcd_server_rule subnetCidrBlock, etcd_peer_rule subnetCidrBlock] []]"
    by (simp add: batch create_rules_trace p_group_fields)
  with present_without_peer(5) P_group_describe show ?thesis
    by simp
qed

theorem configDefaultSecurityPermission_delta_witness:
  "DescribeSecurityGroupPolicies (P_group rules_complete [egress_rule]) (trace p_group)
        (SecurityGroupIds p_group)
       = Inr (Some \<lparr>Ingress = Some rules_complete, Egress = [egress_rule]\<rparr>)
   \<and> configDefaultSecurityPermission (P_group rules_complete [egress_rule]) p_group
       = (None, record_call (CallDescribeSecurityGroupPolicies ''sg-1'') p_group)"
proof -
  have cidr: "(if SubnetID p_group \<noteq> []
                  then getSubnetCidr (P_group rules_complete [egress_rule])
                         (record_call (CallDescribeSecurityGroupPolicies (SecurityGroupIds p_group)) p_group)
                  else (Inr subnetCidrBlock,
                        record_call (CallDescribeSecurityGroupPolicies (SecurityGroupIds p_group)) p_group))
                 = (Inr subnetCidrBlock,
                    record_call (CallDescribeSecurityGroupPolicies (SecurityGroupIds p_group)) p_group)"
    by (simp add: p_group_fields)
  have batch: "map snd (filter (\<lambda>nr. missing subnetCidrBlock rules_complete (fst nr))
                  (required_rules p_group subnetCidrBlock)) = []"
    by (simp add: required_rules_def missing_def present_complete p_group_fields)
  from configDefaultSecurityPermission_delta [OF P_group_describe cidr wf_rules_complete]
  have "configDefaultSecurityPermission (P_group rules_complete [egress_rule]) p_group
       = (None, record_call (CallDescribeSecurityGroupPolicies ''sg-1'') p_group)"
    by (simp add: Let_def batch p_group_fields)
  with P_group_describe show ?thesis
    by simp
qed

section \<open>Discovery leaves the receiver alone\<close>

lemma record_call_append:
  "(record_call cl p)\<lparr>trace := trace (record_call cl p) @ cs\<rparr> = p\<lparr>trace := trace p @ cl # cs\<rparr>"
  by (simp add: record_call_def)

lemma record_call_as_update: "record_call cl p = p\<lparr>trace := trace p @ [cl]\<rparr>"
  by (simp add: record_call_def)

lemma describeInstances_loop_state:
  assumes "describeInstances_loop P fs off idx acc p = Some y"
  shows "\<exists>cs. snd y = p\<lparr>trace := trace p @ cs\<rparr>
           \<and> (\<forall>cl \<in> set cs. \<exists>off'. cl = CallDescribeInstances fs off')"
proof -
  have "(\<lambda>x y. \<exists>cs. snd y = (snd x)\<lparr>trace := trace (snd x) @ cs\<rparr>
           \<and> (\<forall>cl \<in> set cs. \<exists>off'. cl = CallDescribeInstances (snd (fst (fst (fst (fst x))))) off'))
        (((((P, fs), off), idx), acc), p) y"
  proof (rule describeInstances_loop.raw_induct [OF _ assms], goal_cases)
    case (1 loop P fs off idx acc p y)
    show ?case
    proof (cases "DescribeInstances P (trace p) fs off")
      case (Inl err)
      with 1(2) have "snd y = record_call (CallDescribeInstances fs off) p"
        by auto
      then have "snd y = p\<lparr>trace := trace p @ [CallDescribeInstances fs off]\<rparr>
           \<and> (\<forall>cl \<in> set [CallDescribeInstances fs off]. \<exists>off'. cl = CallDescribeInstances fs off')"
        by (simp add: record_call_as_update)
      then show ?thesis
        by (simp only: fst_conv snd_conv) blast
    next
      case (Inr response)
      show ?thesis
      proof (cases "InstanceSet response = [] \<or> TotalCount response \<le> 20 * idx + 20")
        case True
        with 1(2) Inr have "snd y = record_call (CallDescribeInstances fs off) p"
          by (auto split: if_splits)
        then have "snd y = p\<lparr>trace := trace p @ [CallDescribeInstances fs off]\<rparr>
           \<and> (\<forall>cl \<in> set [CallDescribeInstances fs off]. \<exists>off'. cl = CallDescribeInstances fs off')"
          by (simp add: record_call_as_update)
        then show ?thesis
          by (simp only: fst_conv snd_conv) blast
      next
        case False
        with 1(2) Inr have rec: "loop P fs (Some (20 * idx + 20)) (idx + 1) (acc @ InstanceSet response)
                 (record_call (CallDescribeInstances fs off) p) = Some y"
          by (auto split: if_splits)
        from 1(1) [OF rec] obtain cs where
          cs: "snd y = (record_call (CallDescribeInstances fs off) p)
                 \<lparr>trace := trace (record_call (CallDescribeInstances fs off) p) @ cs\<rparr>"
          and all: "\<forall>cl \<in> set cs. \<exists>off'. cl = CallDescribeInstances fs off'"
          by (auto simp only: fst_conv snd_conv)
        from cs have "snd y = p\<lparr>trace := trace p @ CallDescribeInstances fs off # cs\<rparr>"
          by (simp only: record_call_append)
        moreover from all have "\<forall>cl \<in> set (CallDescribeInstances fs off # cs). \<exists>off'. cl = CallDescribeInstances fs off'"
          by simp
        ultimately show ?thesis
          by (simp only: fst_conv snd_conv) blast
      qed
    qed
  qed
  then show ?thesis by simp
qed

section \<open>Preflight validation\<close>

lemma describeInstances_state:
  assumes "describeInstances K P p = Some (r, p')"
  shows "\<exists>cs. p' = p\<lparr>trace := trace p @ cs\<rparr>
           \<and> (\<forall>cl \<in> set cs. \<exists>fs off. cl = CallDescribeInstances fs off)"
proof -
  from describeInstances_loop_state [OF assms [unfolded describeInstances_def]]
  obtain cs where "p' = p\<lparr>trace := trace p @ cs\<rparr>"
    and "\<forall>cl \<in> set cs. \<exists>off'. cl = CallDescribeInstances (instance_filters K p) off'"
    by auto
  then have "p' = p\<lparr>trace := trace p @ cs\<rparr>
           \<and> (\<forall>cl \<in> set cs. \<exists>fs off. cl = CallDescribeInstances fs off)"
    by blast
  then show ?thesis ..
qed











section \<open>Requests made while deleting\<close>

lemma record_call_trace_update:
  "(record_call cl p)\<lparr>trace := xs\<rparr> = p\<lparr>trace := xs\<rparr>"
  by (simp add: record_call_def)

lemma poll_state:
  "snd (describeVpcTaskResult_poll K P t p) = record_call (CallDescribeTaskResult t) p"
  by (simp add: describeVpcTaskResult_poll_def Let_def split: sum.splits)

lemma backoff_polls:
  "\<exists>n. n \<le> steps \<and> (0 < steps \<longrightarrow> 0 < n)
     \<and> snd (ExponentialBackoff steps tmo (describeVpcTaskResult_poll K P t) p)
         = p\<lparr>trace := trace p @ replicate n (CallDescribeTaskResult t)\<rparr>"
proof (induction steps arbitrary: p)
  case 0
  have "0 \<le> (0::nat) \<and> (0 < (0::nat) \<longrightarrow> 0 < (0::nat))
     \<and> snd (ExponentialBackoff 0 tmo (describeVpcTaskResult_poll K P t) p)
         = p\<lparr>trace := trace p @ replicate 0 (CallDescribeTaskResult t)\<rparr>"
    by simp
  then show ?case by blast
next
  case (Suc steps)
  obtain ok err q where c: "describeVpcTaskResult_poll K P t p = ((ok, err), q)"
    by (metis prod.exhaust)
  from poll_state [of K P t p] c have q: "q = record_call (CallDescribeTaskResult t) p"
    by simp
  show ?case
  proof (cases "err \<noteq> None \<or> ok")
    case True
    with c have "snd (ExponentialBackoff (Suc steps) tmo (describeVpcTaskResult_poll K P t) p) = q"
      by auto
    then have "Suc 0 \<le> Suc steps \<and> (0 < Suc steps \<longrightarrow> 0 < Suc 0)
       \<and> snd (ExponentialBackoff (Suc steps) tmo (describeVpcTaskResult_poll K P t) p)
         = p\<lparr>trace := trace p @ replicate (Suc 0) (CallDescribeTaskResult t)\<rparr>"
      by (simp add: q record_call_as_update)
    then show ?thesis by blast
  next
    case False
    with c have e: "ExponentialBackoff (Suc steps) tmo (describeVpcTaskResult_poll K P t) p
        = ExponentialBackoff steps tmo (describeVpcTaskResult_poll K P t) q"
      by auto
    from Suc.IH [of q] obtain n where n: "n \<le> steps"
      and s: "snd (ExponentialBackoff steps tmo (describeVpcTaskResult_poll K P t) q)
         = q\<lparr>trace := trace q @ replicate n (CallDescribeTaskResult t)\<rparr>"
      by blast
    have "snd (ExponentialBackoff (Suc steps) tmo (describeVpcTaskResult_poll K P t) p)
         = p\<lparr>trace := trace p @ replicate (Suc n) (CallDescribeTaskResult t)\<rparr>"
      unfolding e s by (simp add: q record_call_trace_update)
    with n have "Suc n \<le> Suc steps \<and> (0 < Suc steps \<longrightarrow> 0 < Suc n)
       \<and> snd (ExponentialBackoff (Suc steps) tmo (describeVpcTaskResult_poll K P t) p)
         = p\<lparr>trace := trace p @ replicate (Suc n) (CallDescribeTaskResult t)\<rparr>"
      by simp
    then show ?thesis by blast
  qed
qed

lemma describeVpcTaskResult_polls:
  "\<exists>n. n \<le> Backoff_Steps K \<and> (0 < Backoff_Steps K \<longrightarrow> 0 < n)
     \<and> snd (describeVpcTaskResult K P t p)
         = p\<lparr>trace := trace p @ replicate n (CallDescribeTaskResult t)\<rparr>"
  unfolding describeVpcTaskResult_def by (rule backoff_polls)

lemma wait_tasks_polls:
  "\<exists>polls. wait_tasks K P ts p = p\<lparr>trace := trace p @ polls\<rparr>
     \<and> set polls \<subseteq> CallDescribeTaskResult ` set ts
     \<and> (0 < Backoff_Steps K \<longrightarrow> CallDescribeTaskResult ` set ts \<subseteq> set polls)"
proof (induction ts arbitrary: p)
  case Nil
  show ?case
    by (rule exI [of _ "[]"]) simp
next
  case (Cons t ts)
  from describeVpcTaskResult_polls [of K P t p] obtain n where
    n: "0 < Backoff_Steps K \<longrightarrow> 0 < n"
    and q: "snd (describeVpcTaskResult K P t p)
              = p\<lparr>trace := trace p @ replicate n (CallDescribeTaskResult t)\<rparr>"
    by (elim exE conjE)
  define q' where "q' = snd (describeVpcTaskResult K P t p)"
  from Cons.IH [of q'] obtain polls where
    w: "wait_tasks K P ts q' = q'\<lparr>trace := trace q' @ polls\<rparr>"
    and sub: "set polls \<subseteq> CallDescribeTaskResult ` set ts"
    and sup: "0 < Backoff_Steps K \<longrightarrow> CallDescribeTaskResult ` set ts \<subseteq> set polls"
    by (elim exE conjE)
  have 1: "wait_tasks K P (t # ts) p
             = p\<lparr>trace := trace p @ (replicate n (CallDescribeTaskResult t) @ polls)\<rparr>"
    using w q by (simp add: q'_def)
  have 2: "set (replicate n (CallDescribeTaskResult t) @ polls) \<subseteq> CallDescribeTaskResult ` set (t # ts)"
    using sub by auto
  have 3: "0 < Backoff_Steps K \<longrightarrow>
             CallDescribeTaskResult ` set (t # ts) \<subseteq> set (replicate n (CallDescribeTaskResult t) @ polls)"
    using sup n by auto
  show ?case
    by (rule exI [of _ "replicate n (CallDescribeTaskResult t) @ polls"]) (intro conjI 1 2 3)
qed

lemma disassociateAddress_state:
  "disassociateAddress P a p = (r, p') \<Longrightarrow> p' = record_call (CallDisassociateAddress a) p"
  by (auto simp: disassociateAddress_def Let_def split: sum.splits option.splits)

lemma disassociate_tagged_state:
  assumes "disassociate_tagged K P rs eipIds taskIds p = (eipIds', taskIds', p')"
  shows "\<exists>new. eipIds' = eipIds @ new
           \<and> p' = p\<lparr>trace := trace p @ map CallDisassociateAddress new\<rparr>"
  using assms
proof (induction rs arbitrary: eipIds taskIds p)
  case Nil
  then have "eipIds' = eipIds @ [] \<and> p' = p\<lparr>trace := trace p @ map CallDisassociateAddress []\<rparr>"
    by simp
  then show ?case by blast
next
  case (Cons resource rs)
  show ?case
  proof (cases "EqualFold K (ServiceTypeEIP K) (ServiceType resource)
         \<and> EqualFold K (ResourcePrefixEIP K) (ResourcePrefix resource)
         \<and> ResourceId resource \<noteq> []")
    case False
    with Cons.prems have "disassociate_tagged K P rs eipIds taskIds p = (eipIds', taskIds', p')"
      by auto
    from Cons.IH [OF this] show ?thesis .
  next
    case True
    obtain r q where d: "disassociateAddress P (ResourceId resource) p = (r, q)"
      by (metis prod.exhaust)
    from disassociateAddress_state [OF d]
    have q: "q = record_call (CallDisassociateAddress (ResourceId resource)) p" .
    from Cons.prems True d obtain ts where
      "disassociate_tagged K P rs (eipIds @ [ResourceId resource]) ts q = (eipIds', taskIds', p')"
      by (auto simp: Let_def)
    from Cons.IH [OF this] obtain new where
      e: "eipIds' = (eipIds @ [ResourceId resource]) @ new"
      and p': "p' = q\<lparr>trace := trace q @ map CallDisassociateAddress new\<rparr>"
      by blast
    have "eipIds' = eipIds @ (ResourceId resource # new)
           \<and> p' = p\<lparr>trace := trace p @ map CallDisassociateAddress (ResourceId resource # new)\<rparr>"
      using e p' by (simp add: q record_call_trace_update)
    then show ?thesis by blast
  qed
qed

lemma disassociate_eips_state:
  assumes "disassociate_eips P eips eipIds taskIds p = (eipIds', taskIds', p')"
  shows "eipIds' = eipIds @ map AddressId eips
           \<and> p' = p\<lparr>trace := trace p @ map CallDisassociateAddress (map AddressId eips)\<rparr>"
  using assms
proof (induction eips arbitrary: eipIds taskIds p)
  case Nil
  then show ?case by simp
next
  case (Cons eip eips)
  obtain r q where d: "disassociateAddress P (AddressId eip) p = (r, q)"
    by (metis prod.exhaust)
  from disassociateAddress_state [OF d]
  have q: "q = record_call (CallDisassociateAddress (AddressId eip)) p" .
  from Cons.prems d obtain ts where
    "disassociate_eips P eips (eipIds @ [AddressId eip]) ts q = (eipIds', taskIds', p')"
    by (cases r) auto
  from Cons.IH [OF this] show ?case
    by (simp add: q record_call_trace_update)
qed

lemma releaseAddresses_state:
  "releaseAddresses P ids p = (r, p') \<Longrightarrow> p' = record_call (CallReleaseAddresses ids) p"
  by (auto simp: releaseAddresses_def Let_def split: sum.splits option.splits)

lemma release_and_wait_trace:
  "\<exists>polls. release_and_wait K P ids p = p\<lparr>trace := trace p @ CallReleaseAddresses ids # polls\<rparr>
     \<and> (\<forall>cl \<in> set polls. \<exists>t. cl = CallDescribeTaskResult t)"
proof -
  obtain r q where r: "releaseAddresses P ids p = (r, q)"
    by (metis prod.exhaust)
  from releaseAddresses_state [OF r] have q: "q = record_call (CallReleaseAddresses ids) p" .
  define t where "t = (case r of Inl err \<Rightarrow> 0 | Inr t \<Rightarrow> t)"
  from describeVpcTaskResult_polls [of K P t q] obtain n where
    "snd (describeVpcTaskResult K P t q) = q\<lparr>trace := trace q @ replicate n (CallDescribeTaskResult t)\<rparr>"
    by blast
  then have "release_and_wait K P ids p
      = p\<lparr>trace := trace p @ CallReleaseAddresses ids # replicate n (CallDescribeTaskResult t)\<rparr>
     \<and> (\<forall>cl \<in> set (replicate n (CallDescribeTaskResult t)). \<exists>t. cl = CallDescribeTaskResult t)"
    by (auto simp: release_and_wait_def r t_def q record_call_trace_update)
  then show ?thesis by blast
qed

lemma terminateInstances_state:
  "snd (terminateInstances P ids p) = record_call (CallTerminateInstances ids) p"
  by (simp add: terminateInstances_def split: option.splits)

lemma delete_found_tail:
  "snd (case (if c then terminateInstances P ids q else (None, q)) of
          (Some e, p7) \<Rightarrow> (Some TerminateError, p7)
        | (None, p7) \<Rightarrow> if d then (Some DeleteClusterError, p7) else (g p7, p7))
     = (if c then record_call (CallTerminateInstances ids) q else q)"
proof (cases c)
  case True
  obtain r q' where t: "terminateInstances P ids q = (r, q')"
    by (metis prod.exhaust)
  with terminateInstances_state [of P ids q] have "q' = record_call (CallTerminateInstances ids) q"
    by simp
  with True t show ?thesis
    by (cases r) auto
next
  case False
  then show ?thesis by simp
qed

lemma delete_found_state:
  assumes tags: "describeResourcesByTags K P p1 = ((tagged, err), p2)"
      and dis: "disassociate_tagged K P tagged [] [] p2 = (eipIds, taskIds, p3)"
  shows "snd (delete_found K H P f ids p1)
           = (if err = None \<and> ids \<noteq> []
              then record_call (CallTerminateInstances ids)
                     (if eipIds \<noteq> [] then release_and_wait K P eipIds (wait_tasks K P taskIds p3)
                      else wait_tasks K P taskIds p3)
              else (if eipIds \<noteq> [] then release_and_wait K P eipIds (wait_tasks K P taskIds p3)
                    else wait_tasks K P taskIds p3))"
proof (cases "tagged = []")
  case True
  with dis have e: "eipIds = []" "taskIds = []" "p3 = p2"
    by auto
  show ?thesis
    unfolding delete_found_def tags
    by (simp add: True e Let_def delete_found_tail)
next
  case False
  show ?thesis
    unfolding delete_found_def tags
    by (simp add: False dis Let_def delete_found_tail)
qed

lemma delete_found_trace:
  assumes tags: "describeResourcesByTags K P p1 = ((tagged, err), p2)"
      and dis: "disassociate_tagged K P tagged [] [] p2 = (eipIds, taskIds, p3)"
  shows "\<exists>polls polls2.
           trace (snd (delete_found K H P f ids p1))
             = trace p2 @ map CallDisassociateAddress eipIds @ polls
                 @ (if eipIds = [] then [] else CallReleaseAddresses eipIds # polls2)
                 @ (if err = None \<and> ids \<noteq> [] then [CallTerminateInstances ids] else [])
         \<and> set polls \<subseteq> CallDescribeTaskResult ` set taskIds
         \<and> (0 < Backoff_Steps K \<longrightarrow> CallDescribeTaskResult ` set taskIds \<subseteq> set polls)
         \<and> (\<forall>cl \<in> set polls2. \<exists>t. cl = CallDescribeTaskResult t)"
proof -
  from disassociate_tagged_state [OF dis] have p3: "trace p3 = trace p2 @ map CallDisassociateAddress eipIds"
    by auto
  from wait_tasks_polls [of K P taskIds p3] obtain polls where
    w: "wait_tasks K P taskIds p3 = p3\<lparr>trace := trace p3 @ polls\<rparr>"
    and sub: "set polls \<subseteq> CallDescribeTaskResult ` set taskIds"
    and sup: "0 < Backoff_Steps K \<longrightarrow> CallDescribeTaskResult ` set taskIds \<subseteq> set polls"
    by (elim exE conjE)
  define p4 where "p4 = wait_tasks K P taskIds p3"
  have t4: "trace p4 = trace p2 @ map CallDisassociateAddress eipIds @ polls"
    by (simp add: p4_def w p3)
  from release_and_wait_trace [of K P eipIds p4] obtain polls2 where
    r: "release_and_wait K P eipIds p4 = p4\<lparr>trace := trace p4 @ CallReleaseAddresses eipIds # polls2\<rparr>"
    and all2: "\<forall>cl \<in> set polls2. \<exists>t. cl = CallDescribeTaskResult t"
    by (elim exE conjE)
  have tr: "trace (snd (delete_found K H P f ids p1))
             = trace p2 @ map CallDisassociateAddress eipIds @ polls
                 @ (if eipIds = [] then [] else CallReleaseAddresses eipIds # polls2)
                 @ (if err = None \<and> ids \<noteq> [] then [CallTerminateInstances ids] else [])"
    unfolding delete_found_state [OF tags dis] p4_def [symmetric]
    by (simp add: r t4)
  show ?thesis
    by (rule exI [of _ polls], rule exI [of _ polls2]) (intro conjI tr sub sup all2)
qed

lemma terminate_poll_state:
  "snd (terminate_poll P ids p) = record_call (CallTerminateInstances ids) p"
  by (simp add: terminate_poll_def terminateInstances_def split: option.splits)

lemma terminate_backoff:
  "\<exists>n. snd (ExponentialBackoff steps tmo (terminate_poll P ids) p)
         = p\<lparr>trace := trace p @ replicate n (CallTerminateInstances ids)\<rparr>"
proof (induction steps arbitrary: p)
  case 0
  show ?case by (rule exI [of _ 0]) simp
next
  case (Suc steps)
  obtain ok err q where c: "terminate_poll P ids p = ((ok, err), q)"
    by (metis prod.exhaust)
  from terminate_poll_state [of P ids p] c have q: "q = record_call (CallTerminateInstances ids) p"
    by simp
  show ?case
  proof (cases "err \<noteq> None \<or> ok")
    case True
    with c have "snd (ExponentialBackoff (Suc steps) tmo (terminate_poll P ids) p) = q"
      by auto
    then have "snd (ExponentialBackoff (Suc steps) tmo (terminate_poll P ids) p)
         = p\<lparr>trace := trace p @ replicate (Suc 0) (CallTerminateInstances ids)\<rparr>"
      by (simp add: q record_call_as_update)
    then show ?thesis by (rule exI)
  next
    case False
    with c have e: "ExponentialBackoff (Suc steps) tmo (terminate_poll P ids) p
        = ExponentialBackoff steps tmo (terminate_poll P ids) q"
      by auto
    from Suc.IH [of q] obtain n where
      s: "snd (ExponentialBackoff steps tmo (terminate_poll P ids) q)
         = q\<lparr>trace := trace q @ replicate n (CallTerminateInstances ids)\<rparr>"
      by (elim exE)
    have "snd (ExponentialBackoff (Suc steps) tmo (terminate_poll P ids) p)
         = p\<lparr>trace := trace p @ replicate (Suc n) (CallTerminateInstances ids)\<rparr>"
      unfolding e s by (simp add: q record_call_trace_update)
    then show ?thesis by (rule exI)
  qed
qed

lemma describeAddresses_state:
  "describeAddresses P as is p = (r, p') \<Longrightarrow>
     p' = record_call (CallDescribeAddresses (fst (describeAddresses_request as is))
                         (snd (describeAddresses_request as is))) p"
  by (auto simp: describeAddresses_def Let_def split: sum.splits)

lemma Rollback_state:
  assumes log: "GetLogFile H (Name p) = None"
      and ids: "rollback_ids p \<noteq> []"
  shows "snd (Rollback K H P p)
           = snd (ExponentialBackoff 5 (ErrWaitTimeout ''rollback'') (terminate_poll P (rollback_ids p))
                    (if PublicIPAssignedEIP p then rollback_eips K P (rollback_ids p) p else p))"
  using ids
  by (simp add: Rollback_def log split: prod.splits option.splits)

lemma Rollback_trace:
  assumes log: "GetLogFile H (Name p) = None"
      and ids: "rollback_ids p \<noteq> []"
      and eip: "PublicIPAssignedEIP p"
      and desc: "describeAddresses P [] (rollback_ids p) p = (r, p1)"
      and dis: "disassociate_eips P (case r of Inl err \<Rightarrow> [] | Inr None \<Rightarrow> [] | Inr (Some eips) \<Rightarrow> eips)
                  [] [] p1 = (eipIds, taskIds, p2)"
  shows "\<exists>polls polls2 n.
           trace (snd (Rollback K H P p))
             = trace p1 @ map CallDisassociateAddress eipIds @ polls
                 @ CallReleaseAddresses eipIds # polls2
                 @ replicate n (CallTerminateInstances (rollback_ids p))
         \<and> set polls \<subseteq> CallDescribeTaskResult ` set taskIds
         \<and> (0 < Backoff_Steps K \<longrightarrow> CallDescribeTaskResult ` set taskIds \<subseteq> set polls)
         \<and> (\<forall>cl \<in> set polls2. \<exists>t. cl = CallDescribeTaskResult t)"
proof -
  from disassociate_eips_state [OF dis]
  have t2: "trace p2 = trace p1 @ map CallDisassociateAddress eipIds"
    by auto
  from wait_tasks_polls [of K P taskIds p2] obtain polls where
    w: "wait_tasks K P taskIds p2 = p2\<lparr>trace := trace p2 @ polls\<rparr>"
    and sub: "set polls \<subseteq> CallDescribeTaskResult ` set taskIds"
    and sup: "0 < Backoff_Steps K \<longrightarrow> CallDescribeTaskResult ` set taskIds \<subseteq> set polls"
    by (elim exE conjE)
  define p4 where "p4 = wait_tasks K P taskIds p2"
  have t4: "trace p4 = trace p1 @ map CallDisassociateAddress eipIds @ polls"
    by (simp add: p4_def w t2)
  from release_and_wait_trace [of K P eipIds p4] obtain polls2 where
    rw: "release_and_wait K P eipIds p4 = p4\<lparr>trace := trace p4 @ CallReleaseAddresses eipIds # polls2\<rparr>"
    and all2: "\<forall>cl \<in> set polls2. \<exists>t. cl = CallDescribeTaskResult t"
    by (elim exE conjE)
  have re: "rollback_eips K P (rollback_ids p) p = release_and_wait K P eipIds p4"
    by (simp add: rollback_eips_def desc dis p4_def)
  define q where "q = release_and_wait K P eipIds p4"
  from terminate_backoff [of 5 "ErrWaitTimeout ''rollback''" P "rollback_ids p" q] obtain n where
    tb: "snd (ExponentialBackoff 5 (ErrWaitTimeout ''rollback'') (terminate_poll P (rollback_ids p)) q)
           = q\<lparr>trace := trace q @ replicate n (CallTerminateInstances (rollback_ids p))\<rparr>"
    by (elim exE)
  have tq: "trace q = trace p1 @ map CallDisassociateAddress eipIds @ polls
                 @ CallReleaseAddresses eipIds # polls2"
    by (simp add: q_def rw t4)
  have tr: "trace (snd (Rollback K H P p))
             = trace p1 @ map CallDisassociateAddress eipIds @ polls
                 @ CallReleaseAddresses eipIds # polls2
                 @ replicate n (CallTerminateInstances (rollback_ids p))"
    unfolding Rollback_state [OF log ids]
    using eip by (simp add: re q_def [symmetric] tb tq)
  show ?thesis
    by (rule exI [of _ polls], rule exI [of _ polls2], rule exI [of _ n]) (intro conjI tr sub sup all2)
qed

section \<open>Deleting and rolling back\<close>

lemma deleteCluster_found:
  assumes "IsClusterExist K H P p = Some ((True, ids, None), p1)"
  shows "deleteCluster K H P f p = Some (delete_found K H P f ids p1)"
  using assms by (simp add: deleteCluster_def)

lemma generateClientSDK_ok:
  assumes "generateClientSDK H p = (None, p0)"
  shows "p0 = p\<lparr>p_c := True\<rparr>"
  using assms by (auto simp: generateClientSDK_def split: option.splits)

text \<open>
  A forced delete of a cluster whose instances are found, and whose query of the tagged
  resources succeeds, issues the termination request for exactly the instances found by
  the two tags, whatever the disassociation and release steps give; it asks for no other
  termination. The instance ids come from the description by tags alone: the nodes the
  receiver remembers play no part.
\<close>

lemma force_delete_terminates_discovered:
  assumes log: "GetLogFile H (Name p) = None"
      and sdk: "generateClientSDK H p = (None, p0)"
      and disc: "describeInstances K P p0 = Some (Inr insts, p1)"
      and found: "insts \<noteq> []"
      and tags: "DescribeResourcesByTags P (trace p1)
                   [(''autok3s'', [''true'']), (''cluster'', [TagClusterPrefix K @ Name p1])] = Inr rows"
  shows "\<exists>r p' cs. DeleteK3sCluster K H P True p = Some (r, p')
           \<and> trace p' = trace p1 @ cs
           \<and> CallTerminateInstances (map InstanceId insts) \<in> set cs
           \<and> (\<forall>ids. CallTerminateInstances ids \<in> set cs \<longrightarrow> ids = map InstanceId insts)"
proof -
  define ids where "ids = map InstanceId insts"
  have p0: "p0 = p\<lparr>p_c := True\<rparr>"
    using generateClientSDK_ok [OF sdk] .
  then have c0: "p_c p0" by simp
  have ex: "IsClusterExist K H P p0 = Some ((True, ids, None), p1)"
    using found by (simp add: IsClusterExist_def c0 disc instances_found_def ids_def)
  have top: "DeleteK3sCluster K H P True p = Some (delete_found K H P True ids p1)"
    by (simp add: DeleteK3sCluster_def log sdk deleteCluster_found [OF ex])
  define fs where "fs = [(''autok3s'', [''true'']), (''cluster'', [TagClusterPrefix K @ Name p1])]"
  define p2 where "p2 = record_call (CallDescribeResourcesByTags fs) p1"
  have tg: "describeResourcesByTags K P p1 = ((rows, None), p2)"
    using tags by (simp add: describeResourcesByTags_def Let_def fs_def p2_def)
  obtain eipIds taskIds p3 where dis: "disassociate_tagged K P rows [] [] p2 = (eipIds, taskIds, p3)"
    by (metis prod.exhaust)
  from delete_found_trace [OF tg dis, of H True ids] obtain polls polls2 where
    tr: "trace (snd (delete_found K H P True ids p1))
             = trace p2 @ map CallDisassociateAddress eipIds @ polls
                 @ (if eipIds = [] then [] else CallReleaseAddresses eipIds # polls2)
                 @ (if (None :: error option) = None \<and> ids \<noteq> [] then [CallTerminateInstances ids] else [])"
    and sub: "set polls \<subseteq> CallDescribeTaskResult ` set taskIds"
    and all2: "\<forall>cl \<in> set polls2. \<exists>t. cl = CallDescribeTaskResult t"
    by (elim exE conjE)
  define cs where "cs = CallDescribeResourcesByTags fs # map CallDisassociateAddress eipIds @ polls
                 @ (if eipIds = [] then [] else CallReleaseAddresses eipIds # polls2)
                 @ [CallTerminateInstances ids]"
  have ne: "ids \<noteq> []"
    using found by (simp add: ids_def)
  have 1: "DeleteK3sCluster K H P True p
             = Some (fst (delete_found K H P True ids p1), snd (delete_found K H P True ids p1))"
    by (simp add: top)
  have 2: "trace (snd (delete_found K H P True ids p1)) = trace p1 @ cs"
    using ne by (simp add: tr cs_def p2_def)
  have 3: "CallTerminateInstances ids \<in> set cs"
    by (simp add: cs_def)
  have 4: "\<forall>ids'. CallTerminateInstances ids' \<in> set cs \<longrightarrow> ids' = ids"
    using sub all2 by (auto simp: cs_def)
  show ?thesis
    unfolding ids_def [symmetric]
    by (rule exI [of _ "fst (delete_found K H P True ids p1)"],
        rule exI [of _ "snd (delete_found K H P True ids p1)"], rule exI [of _ cs])
       (intro conjI 1 2 3 4)
qed

lemma p_on_fields:
  "p_c p_on" "trace p_on = []" "Name p_on = ''demo''" "GetLogFile quiet_host n = None"
  "Name NewProvider = ''demo''" "trace NewProvider = []"
  by (simp_all add: p_on_def NewProvider_def quiet_host_def)

lemma P_cluster_ops:
  "DescribeInstances (P_cluster tg res) h fs off = Inr \<lparr>InstanceSet = [ins_1], TotalCount = 1\<rparr>"
  "DescribeResourcesByTags (P_cluster tg res) h fs = tg"
  "DisassociateAddress (P_cluster tg res) h a = Inr (Some ''5'')"
  "DescribeTaskResult (P_cluster tg res) h t = Inr res"
  "ReleaseAddresses (P_cluster tg res) h ids = Inr ''6''"
  "TerminateInstances (P_cluster tg res) h ids = None"
  "DescribeAddresses (P_cluster tg res) h ids fs = Inr (Some two_addresses)"
  by (simp_all add: P_cluster_def idle_provider_def)

lemma describeInstances_cluster:
  "describeInstances K (P_cluster tg res) p
     = Some (Inr [ins_1], record_call (CallDescribeInstances (instance_filters K p) None) p)"
  by (simp add: describeInstances_def describeInstances_loop.simps P_cluster_ops)

lemma IsClusterExist_cluster:
  "IsClusterExist K0 quiet_host (P_cluster tg res) p_on
     = Some ((True, [''ins-1''], None), record_call found_call p_on)"
  by (simp add: IsClusterExist_def p_on_fields describeInstances_cluster instances_found_def
        ins_1_def found_call_def)



lemma wait_success:
  "describeVpcTaskResult K0 (P_cluster tg ''SUCCESS'') t p
     = (None, record_call (CallDescribeTaskResult t) p)"
  by (simp add: describeVpcTaskResult_def describeVpcTaskResult_poll_def P_cluster_ops K0_def Let_def
      numeral_3_eq_3 ToUpper_def is_ascii_def upper_char_def)


lemma tags_cluster_fail:
  "describeResourcesByTags K0 (P_cluster (Inl e) res) (record_call found_call p_on)
     = (([], Some (SdkError e)), record_call tagged_call (record_call found_call p_on))"
  by (simp add: describeResourcesByTags_def Let_def P_cluster_ops tagged_call_def p_on_fields
        record_call_def)


lemma dis_none:
  "disassociate_tagged K P [] [] [] p = ([], [], p)"
  by simp

text \<open>
  C2. The claim is that a forced delete terminates the instances found by the tags even
  when the query of the tagged resources fails. In \<^verbatim>\<open>deleteCluster\<close> the error of that query
  stays in \<^verbatim>\<open>err\<close>, and the termination is guarded by \<^verbatim>\<open>err == nil\<close>. Here the cluster has
  the instance \<open>ins-1\<close> and the query of the tagged resources fails: the forced delete
  ends without an error, and the only requests made are the description of the instances
  and the query of the tagged resources. No termination request is made, and \<open>ins-1\<close>
  stays.
\<close>

theorem force_delete_skips_termination:
  "IsClusterExist K0 quiet_host (P_cluster (Inl ''timeout'') ''SUCCESS'') p_on
     = Some ((True, [''ins-1''], None), record_call found_call p_on)
   \<and> DeleteK3sCluster K0 quiet_host (P_cluster (Inl ''timeout'') ''SUCCESS'') True NewProvider
       = Some (None, record_call tagged_call (record_call found_call p_on))
   \<and> trace (record_call tagged_call (record_call found_call p_on)) = [found_call, tagged_call]"
proof -
  have sdk: "generateClientSDK quiet_host NewProvider = (None, p_on)"
    by (simp add: generateClientSDK_def quiet_host_def p_on_def)
  have top: "DeleteK3sCluster K0 quiet_host (P_cluster (Inl ''timeout'') ''SUCCESS'') True NewProvider
      = Some (delete_found K0 quiet_host (P_cluster (Inl ''timeout'') ''SUCCESS'') True [''ins-1'']
                (record_call found_call p_on))"
    by (simp add: DeleteK3sCluster_def p_on_fields sdk deleteCluster_found [OF IsClusterExist_cluster])
  have st: "snd (delete_found K0 quiet_host (P_cluster (Inl ''timeout'') ''SUCCESS'') True [''ins-1'']
                (record_call found_call p_on))
            = record_call tagged_call (record_call found_call p_on)"
    by (simp add: delete_found_state [OF tags_cluster_fail dis_none])
  have res: "fst (delete_found K0 quiet_host (P_cluster (Inl ''timeout'') ''SUCCESS'') True [''ins-1'']
                (record_call found_call p_on)) = None"
    by (simp add: delete_found_def tags_cluster_fail delete_local_def)
  have "delete_found K0 quiet_host (P_cluster (Inl ''timeout'') ''SUCCESS'') True [''ins-1'']
                (record_call found_call p_on)
          = (None, record_call tagged_call (record_call found_call p_on))"
    using st res by (simp add: prod_eq_iff)
  with top have "DeleteK3sCluster K0 quiet_host (P_cluster (Inl ''timeout'') ''SUCCESS'') True NewProvider
       = Some (None, record_call tagged_call (record_call found_call p_on))"
    by simp
  moreover have "trace (record_call tagged_call (record_call found_call p_on))
                   = [found_call, tagged_call]"
    by (simp add: p_on_fields)
  ultimately show ?thesis
    using IsClusterExist_cluster by (intro conjI)
qed


lemma force_delete_terminates_discovered_example:
  "describeInstances K0 (P_cluster (Inr [eip_row]) ''FAILED'') p_on
     = Some (Inr [ins_1], record_call found_call p_on)
   \<and> (\<exists>r p' cs. DeleteK3sCluster K0 quiet_host (P_cluster (Inr [eip_row]) ''FAILED'') True NewProvider
                   = Some (r, p')
         \<and> trace p' = trace (record_call found_call p_on) @ cs
         \<and> CallTerminateInstances [''ins-1''] \<in> set cs)"
proof -
  have log: "GetLogFile quiet_host (Name NewProvider) = None"
    by (simp add: p_on_fields)
  have sdk: "generateClientSDK quiet_host NewProvider = (None, p_on)"
    by (simp add: generateClientSDK_def quiet_host_def p_on_def)
  have disc: "describeInstances K0 (P_cluster (Inr [eip_row]) ''FAILED'') p_on
     = Some (Inr [ins_1], record_call found_call p_on)"
    by (simp add: describeInstances_cluster found_call_def)
  have found: "[ins_1] \<noteq> []"
    by simp
  have tags: "DescribeResourcesByTags (P_cluster (Inr [eip_row]) ''FAILED'')
                (trace (record_call found_call p_on))
                [(''autok3s'', [''true'']),
                 (''cluster'', [TagClusterPrefix K0 @ Name (record_call found_call p_on)])]
              = Inr [eip_row]"
    by (simp add: P_cluster_ops)
  have ids: "map InstanceId [ins_1] = [''ins-1'']"
    by (simp add: ins_1_def)
  from force_delete_terminates_discovered [OF log sdk disc found tags]
  obtain r p' cs where
    "DeleteK3sCluster K0 quiet_host (P_cluster (Inr [eip_row]) ''FAILED'') True NewProvider = Some (r, p')"
    "trace p' = trace (record_call found_call p_on) @ cs"
    "CallTerminateInstances (map InstanceId [ins_1]) \<in> set cs"
    by (elim exE conjE)
  then have "\<exists>r p' cs. DeleteK3sCluster K0 quiet_host (P_cluster (Inr [eip_row]) ''FAILED'') True NewProvider
                   = Some (r, p')
         \<and> trace p' = trace (record_call found_call p_on) @ cs
         \<and> CallTerminateInstances [''ins-1''] \<in> set cs"
    unfolding ids by (intro exI conjI)
  with disc show ?thesis
    by (rule conjI)
qed



lemma polled_0 [simp]: "polled t 0 p = p"
  by (simp add: polled_def)

















section \<open>The rollback flag\<close>

lemma set_Store: "set (Store r k v) \<subseteq> insert (k, v) (set r)"
  by (induction r) (auto split: if_splits)

lemma rollback_Store_clear:
  assumes "\<not> RollBack v"
  shows "set (map fst (filter (\<lambda>e. RollBack (snd e)) (Store r k v)))
           \<subseteq> set (map fst (filter (\<lambda>e. RollBack (snd e)) r))"
proof
  fix x
  assume "x \<in> set (map fst (filter (\<lambda>e. RollBack (snd e)) (Store r k v)))"
  then obtain e where e: "e \<in> set (Store r k v)" "RollBack (snd e)" "x = fst e"
    by auto
  with set_Store [of r k v] assms have "e \<in> set r"
    by auto
  with e show "x \<in> set (map fst (filter (\<lambda>e. RollBack (snd e)) r))"
    by auto
qed

lemma rollback_Store_same:
  assumes "Load r k = Some v0" and "RollBack v = RollBack v0"
  shows "set (map fst (filter (\<lambda>e. RollBack (snd e)) (Store r k v)))
           \<subseteq> set (map fst (filter (\<lambda>e. RollBack (snd e)) r))"
proof
  fix x
  assume "x \<in> set (map fst (filter (\<lambda>e. RollBack (snd e)) (Store r k v)))"
  then obtain e where e: "e \<in> set (Store r k v)" "RollBack (snd e)" "x = fst e"
    by auto
  from assms(1) have old: "(k, v0) \<in> set r"
    by (simp add: Load_def map_of_SomeD)
  from e(1) set_Store [of r k v] have "e = (k, v) \<or> e \<in> set r"
    by auto
  then show "x \<in> set (map fst (filter (\<lambda>e. RollBack (snd e)) r))"
  proof
    assume "e = (k, v)"
    with e assms(2) have "RollBack v0" "x = k" by simp_all
    with old show ?thesis by force
  next
    assume "e \<in> set r"
    with e show ?thesis by auto
  qed
qed

lemma rollback_ids_Store_clear:
  assumes "\<not> RollBack v"
  shows "set (rollback_ids (q\<lparr>m := Store (m q) k v\<rparr>)) \<subseteq> set (rollback_ids q)"
proof -
  have "rollback_ids (q\<lparr>m := Store (m q) k v\<rparr>)
          = map fst (filter (\<lambda>e. RollBack (snd e)) (Store (m q) k v))"
    by (simp add: rollback_ids_def)
  moreover have "rollback_ids q = map fst (filter (\<lambda>e. RollBack (snd e)) (m q))"
    by (rule rollback_ids_def)
  ultimately show ?thesis
    using rollback_Store_clear [OF assms, of "m q" k] by (simp only:)
qed

lemma rollback_ids_Store_same:
  assumes "Load (m q) k = Some v0" and "RollBack v = RollBack v0"
  shows "set (rollback_ids (q\<lparr>m := Store (m q) k v\<rparr>)) \<subseteq> set (rollback_ids q)"
proof -
  have "rollback_ids (q\<lparr>m := Store (m q) k v\<rparr>)
          = map fst (filter (\<lambda>e. RollBack (snd e)) (Store (m q) k v))"
    by (simp add: rollback_ids_def)
  moreover have "rollback_ids q = map fst (filter (\<lambda>e. RollBack (snd e)) (m q))"
    by (rule rollback_ids_def)
  ultimately show ?thesis
    using rollback_Store_same [OF assms] by (simp only:)
qed

lemma rollback_Load:
  assumes "Load r k = Some v" and "RollBack v"
  shows "k \<in> set (map fst (filter (\<lambda>e. RollBack (snd e)) r))"
proof -
  from assms(1) have "(k, v) \<in> set r"
    by (simp add: Load_def map_of_SomeD)
  with assms(2) show ?thesis by force
qed

lemma rollback_key:
  assumes "k \<in> set (map fst (filter (\<lambda>e. RollBack (snd e)) r))"
  shows "Load r k \<noteq> None"
proof -
  from assms have "k \<in> fst ` set r" by auto
  then show ?thesis
    by (simp add: Load_def map_of_eq_None_iff)
qed

lemma added_not_rollback:
  assumes sub: "set (rollback_ids p') \<subseteq> set (rollback_ids p)"
      and new: "Load (m p) k = None" and now: "Load (m p') k = Some v'"
  shows "\<not> RollBack v'"
proof
  assume "RollBack v'"
  with now have "k \<in> set (rollback_ids p')"
    unfolding rollback_ids_def by (rule rollback_Load)
  with sub have "k \<in> set (rollback_ids p)" by blast
  then have "Load (m p) k \<noteq> None"
    unfolding rollback_ids_def by (rule rollback_key)
  with new show False by simp
qed

lemma eips_of_instance_m:
  assumes "eips_of_instance P i p = (r, p')"
  shows "m p' = m p"
proof (cases "PublicIPAssignedEIP p")
  case False
  with assms show ?thesis by (simp add: eips_of_instance_def)
next
  case True
  obtain r1 p1 where d: "describeAddresses P [] [i] p = (r1, p1)"
    by (metis prod.exhaust)
  from describeAddresses_state [OF d] have "m p1 = m p" by simp
  moreover from assms True d have "p' = p1"
    by (cases r1) (simp_all add: eips_of_instance_def)
  ultimately show ?thesis by simp
qed

lemma rollback_ids_m: "m p' = m p \<Longrightarrow> rollback_ids p' = rollback_ids p"
  by (simp add: rollback_ids_def)

lemma rollback_ids_update:
  "rollback_ids (p\<lparr>m := r\<rparr>) = map fst (filter (\<lambda>e. RollBack (snd e)) r)"
  by (simp add: rollback_ids_def)

lemma assemble_loop_rollback:
  assumes "assemble_loop K H P sshv up key insts p = (r, p')"
  shows "set (rollback_ids p') \<subseteq> set (rollback_ids p)"
  using assms
proof (induction insts arbitrary: p)
  case Nil
  then show ?case by simp
next
  case (Cons status rest)
  obtain e q where eq: "eips_of_instance P (InstanceId status) p = (e, q)"
    by (metis prod.exhaust)
  from eips_of_instance_m [OF eq] have mq: "m q = m p" .
  then have rq: "rollback_ids q = rollback_ids p" by (rule rollback_ids_m)
  show ?case
  proof (cases e)
    case (Inl err)
    with Cons.prems eq have "p' = q" by simp
    with rq show ?thesis by simp
  next
    case (Inr eip)
    show ?thesis
    proof (cases "Load (m q) (InstanceId status)")
      case None
      define v where "v = zero_node\<lparr>Master := is_master K (ins_Tags status),
                                RollBack := False,
                                InstanceID := InstanceId status,
                                InstanceStatus := StatusRunning K,
                                InternalIPAddress := PrivateIpAddresses status,
                                EipAllocationIds := eip,
                                PublicIPAddress := Some (PublicIpAddresses status)\<rparr>"
      have nv: "\<not> RollBack v" by (simp add: v_def)
      from Cons.prems eq Inr None
      have "assemble_loop K H P sshv up key rest (q\<lparr>m := Store (m q) (InstanceId status) v\<rparr>) = (r, p')"
        by (simp add: v_def)
      from Cons.IH [OF this]
      have "set (rollback_ids p') \<subseteq> set (rollback_ids (q\<lparr>m := Store (m q) (InstanceId status) v\<rparr>))" .
      also have "\<dots> \<subseteq> set (rollback_ids q)"
        using nv by (rule rollback_ids_Store_clear)
      finally show ?thesis by (simp add: rq)
    next
      case (Some v0)
      define v1 where "v1 = v0\<lparr>Current := True,
                            InternalIPAddress := PrivateIpAddresses status,
                            PublicIPAddress := Some (PublicIpAddresses status),
                            EipAllocationIds := eip,
                            SSH := sshv\<rparr>"
      define v2 where "v2 = v1\<lparr>SSH := (SSH v1)\<lparr>Password := []\<rparr>\<rparr>"
      have same: "RollBack v1 = RollBack v0" "RollBack v2 = RollBack v0"
        by (simp_all add: v1_def v2_def)
      have s1: "set (rollback_ids (q\<lparr>m := Store (m q) (InstanceId status) v1\<rparr>)) \<subseteq> set (rollback_ids q)"
        using Some same(1) by (rule rollback_ids_Store_same)
      have s2: "set (rollback_ids (q\<lparr>m := Store (m q) (InstanceId status) v2\<rparr>)) \<subseteq> set (rollback_ids q)"
        using Some same(2) by (rule rollback_ids_Store_same)
      show ?thesis
      proof (cases up)
        case False
        with Cons.prems eq Inr Some
        have "assemble_loop K H P sshv up key rest (q\<lparr>m := Store (m q) (InstanceId status) v1\<rparr>) = (r, p')"
          by (simp add: v1_def Let_def)
        from Cons.IH [OF this] s1 show ?thesis by (simp add: rq)
      next
        case True
        show ?thesis
        proof (cases "UploadKeyPair H v1 key")
          case (Some err)
          with Cons.prems eq Inr \<open>Load (m q) (InstanceId status) = Some v0\<close> True have "p' = q"
            by (simp add: v1_def Let_def)
          with rq show ?thesis by simp
        next
          case None
          with Cons.prems eq Inr \<open>Load (m q) (InstanceId status) = Some v0\<close> True
          have "assemble_loop K H P sshv up key rest (q\<lparr>m := Store (m q) (InstanceId status) v2\<rparr>) = (r, p')"
            by (simp add: v1_def v2_def Let_def)
          from Cons.IH [OF this] s2 show ?thesis by (simp add: rq)
        qed
      qed
    qed
  qed
qed

lemma sync_loop_rollback:
  "set (rollback_ids (sync_loop K P sshv insts p)) \<subseteq> set (rollback_ids p)"
proof (induction insts arbitrary: p)
  case Nil
  show ?case by simp
next
  case (Cons inst rest)
  obtain e q where eq: "eips_of_instance P (InstanceId inst) p = (e, q)"
    by (metis prod.exhaust)
  from eips_of_instance_m [OF eq] have "m q = m p" .
  then have rq: "rollback_ids q = rollback_ids p" by (rule rollback_ids_m)
  show ?case
  proof (cases e)
    case (Inl err)
    with eq have "sync_loop K P sshv (inst # rest) p = sync_loop K P sshv rest q" by simp
    with Cons.IH [of q] rq show ?thesis by simp
  next
    case (Inr eip)
    define v where "v = zero_node\<lparr>Master := is_master K (ins_Tags inst),
                           InstanceID := InstanceId inst,
                           InstanceStatus := InstanceState inst,
                           InternalIPAddress := PrivateIpAddresses inst,
                           PublicIPAddress := Some (PublicIpAddresses inst),
                           EipAllocationIds := eip,
                           SSH := sshv\<rparr>"
    have nv: "\<not> RollBack v" by (simp add: v_def zero_node_def)
    from eq Inr have "sync_loop K P sshv (inst # rest) p
        = sync_loop K P sshv rest (q\<lparr>m := Store (m q) (InstanceId inst) v\<rparr>)"
      by (simp add: v_def)
    moreover have "set (rollback_ids (q\<lparr>m := Store (m q) (InstanceId inst) v\<rparr>)) \<subseteq> set (rollback_ids q)"
      using nv by (rule rollback_ids_Store_clear)
    ultimately show ?thesis
      using Cons.IH [of "q\<lparr>m := Store (m q) (InstanceId inst) v\<rparr>"] rq by auto
  qed
qed

lemma sync_visit_m: "m (sync_visit sshv p entry) = m p"
  by (simp add: sync_visit_def)

lemma foldl_sync_visit_m: "m (foldl (sync_visit sshv) p es) = m p"
  by (induction es arbitrary: p) (simp_all add: sync_visit_m)

lemma syncNodeStatusWithInstance_m: "m (syncNodeStatusWithInstance sshv p) = m p"
  by (simp add: syncNodeStatusWithInstance_def foldl_sync_visit_m)

lemma describeInstances_m:
  assumes "describeInstances K P p = Some (r, p1)"
  shows "m p1 = m p"
proof -
  from describeInstances_state [OF assms] obtain cs where "p1 = p\<lparr>trace := trace p @ cs\<rparr>"
    by (elim exE conjE)
  then show ?thesis by simp
qed

lemma assembleInstanceStatus_rollback:
  assumes "assembleInstanceStatus K H P sshv up key p = Some (r, p')"
  shows "set (rollback_ids p') \<subseteq> set (rollback_ids p)"
proof -
  from assms obtain x p1 where d: "describeInstances K P p = Some (x, p1)"
    by (auto simp: assembleInstanceStatus_def split: option.splits)
  from describeInstances_m [OF d] have r1: "rollback_ids p1 = rollback_ids p"
    by (rule rollback_ids_m)
  show ?thesis
  proof (cases x)
    case (Inl err)
    with assms d have "p' = p1" by (simp add: assembleInstanceStatus_def)
    with r1 show ?thesis by simp
  next
    case (Inr insts)
    obtain e p2 where a: "assemble_loop K H P sshv up key insts p1 = (e, p2)"
      by (metis prod.exhaust)
    from assemble_loop_rollback [OF a] r1 have r2: "set (rollback_ids p2) \<subseteq> set (rollback_ids p)"
      by simp
    from assms d Inr a have "p' = p2 \<or> p' = syncNodeStatusWithInstance (Some sshv) p2"
      by (cases e) (simp_all add: assembleInstanceStatus_def)
    then have "m p' = m p2"
      by (auto simp: syncNodeStatusWithInstance_m)
    then have "rollback_ids p' = rollback_ids p2" by (rule rollback_ids_m)
    with r2 show ?thesis by simp
  qed
qed

lemma syncClusterInstance_rollback:
  assumes "syncClusterInstance K P sshv p = Some (r, p')"
  shows "set (rollback_ids p') \<subseteq> set (rollback_ids p)"
proof -
  from assms obtain x p1 where d: "describeInstances K P p = Some (x, p1)"
    by (auto simp: syncClusterInstance_def split: option.splits)
  from describeInstances_m [OF d] have r1: "rollback_ids p1 = rollback_ids p"
    by (rule rollback_ids_m)
  show ?thesis
  proof (cases x)
    case (Inl err)
    with assms d have "p' = p1" by (simp add: syncClusterInstance_def)
    with r1 show ?thesis by simp
  next
    case (Inr insts)
    with assms d have "p' = syncNodeStatusWithInstance (Some sshv) (sync_loop K P sshv insts p1)"
      by (simp add: syncClusterInstance_def)
    then have "m p' = m (sync_loop K P sshv insts p1)"
      by (simp add: syncNodeStatusWithInstance_m)
    then have "rollback_ids p' = rollback_ids (sync_loop K P sshv insts p1)" by (rule rollback_ids_m)
    with sync_loop_rollback [of K P sshv insts p1] r1 show ?thesis by simp
  qed
qed

lemma sync_loop_untouched:
  assumes "Load (m (sync_loop K P sshv insts p)) k = Some v'" and "RollBack v'"
  shows "Load (m p) k = Some v'"
  using assms
proof (induction insts arbitrary: p)
  case Nil
  then show ?case by simp
next
  case (Cons inst rest)
  obtain e q where eq: "eips_of_instance P (InstanceId inst) p = (e, q)"
    by (metis prod.exhaust)
  from eips_of_instance_m [OF eq] have mq: "m q = m p" .
  show ?case
  proof (cases e)
    case (Inl err)
    with eq have "sync_loop K P sshv (inst # rest) p = sync_loop K P sshv rest q" by simp
    with Cons.prems have "Load (m (sync_loop K P sshv rest q)) k = Some v'" by simp
    from Cons.IH [OF this Cons.prems(2)] mq show ?thesis by simp
  next
    case (Inr eip)
    define v where "v = zero_node\<lparr>Master := is_master K (ins_Tags inst),
                           InstanceID := InstanceId inst,
                           InstanceStatus := InstanceState inst,
                           InternalIPAddress := PrivateIpAddresses inst,
                           PublicIPAddress := Some (PublicIpAddresses inst),
                           EipAllocationIds := eip,
                           SSH := sshv\<rparr>"
    have nv: "\<not> RollBack v" by (simp add: v_def zero_node_def)
    from eq Inr have "sync_loop K P sshv (inst # rest) p
        = sync_loop K P sshv rest (q\<lparr>m := Store (m q) (InstanceId inst) v\<rparr>)"
      by (simp add: v_def)
    with Cons.prems have "Load (m (sync_loop K P sshv rest (q\<lparr>m := Store (m q) (InstanceId inst) v\<rparr>))) k = Some v'"
      by simp
    from Cons.IH [OF this Cons.prems(2)]
    have "Load (Store (m q) (InstanceId inst) v) k = Some v'" by simp
    with nv Cons.prems(2) have "Load (m q) k = Some v'"
      by (auto simp: Load_Store split: if_splits)
    with mq show ?thesis by simp
  qed
qed

lemma syncClusterInstance_untouched:
  assumes s: "syncClusterInstance K P sshv p = Some (r, p')"
      and l: "Load (m p') k = Some v'" and rb: "RollBack v'"
  shows "Load (m p) k = Some v'"
proof -
  from s obtain x p1 where d: "describeInstances K P p = Some (x, p1)"
    by (auto simp: syncClusterInstance_def split: option.splits)
  from describeInstances_m [OF d] have m1: "m p1 = m p" .
  show ?thesis
  proof (cases x)
    case (Inl err)
    with s d have "p' = p1" by (simp add: syncClusterInstance_def)
    with m1 l show ?thesis by simp
  next
    case (Inr insts)
    with s d have "p' = syncNodeStatusWithInstance (Some sshv) (sync_loop K P sshv insts p1)"
      by (simp add: syncClusterInstance_def)
    with l have "Load (m (sync_loop K P sshv insts p1)) k = Some v'"
      by (simp add: syncNodeStatusWithInstance_m)
    from sync_loop_untouched [OF this rb] m1 show ?thesis by simp
  qed
qed

lemma Rollback_terminates:
  "\<exists>cs. trace (snd (Rollback K H P p)) = trace p @ cs
     \<and> (\<forall>ids. CallTerminateInstances ids \<in> set cs \<longrightarrow> ids = rollback_ids p)"
proof (cases "GetLogFile H (Name p) = None \<and> rollback_ids p \<noteq> []")
  case False
  then have "snd (Rollback K H P p) = p"
    by (auto simp: Rollback_def split: option.splits)
  then show ?thesis
    by (intro exI [of _ "[]"]) simp
next
  case True
  then have log: "GetLogFile H (Name p) = None" and ids: "rollback_ids p \<noteq> []"
    by simp_all
  show ?thesis
  proof (cases "PublicIPAssignedEIP p")
    case False
    from terminate_backoff [of 5 "ErrWaitTimeout ''rollback''" P "rollback_ids p" p] obtain n where
      "snd (ExponentialBackoff 5 (ErrWaitTimeout ''rollback'') (terminate_poll P (rollback_ids p)) p)
         = p\<lparr>trace := trace p @ replicate n (CallTerminateInstances (rollback_ids p))\<rparr>"
      by (elim exE)
    with False have "trace (snd (Rollback K H P p))
        = trace p @ replicate n (CallTerminateInstances (rollback_ids p))"
      by (simp add: Rollback_state [OF log ids])
    then show ?thesis
      by (intro exI [of _ "replicate n (CallTerminateInstances (rollback_ids p))"]) auto
  next
    case True
    obtain r p1 where desc: "describeAddresses P [] (rollback_ids p) p = (r, p1)"
      by (metis prod.exhaust)
    obtain eipIds taskIds p2 where
      dis: "disassociate_eips P (case r of Inl err \<Rightarrow> [] | Inr None \<Rightarrow> [] | Inr (Some eips) \<Rightarrow> eips)
                  [] [] p1 = (eipIds, taskIds, p2)"
      by (metis prod.exhaust)
    from describeAddresses_state [OF desc] obtain c1 where t1: "trace p1 = trace p @ [c1]"
      and c1: "\<forall>ids. c1 \<noteq> CallTerminateInstances ids"
      by simp
    from Rollback_trace [OF log ids True desc dis, of K] obtain polls polls2 n where
      tr: "trace (snd (Rollback K H P p))
             = trace p1 @ map CallDisassociateAddress eipIds @ polls
                 @ CallReleaseAddresses eipIds # polls2
                 @ replicate n (CallTerminateInstances (rollback_ids p))"
      and sub: "set polls \<subseteq> CallDescribeTaskResult ` set taskIds"
      and all2: "\<forall>cl \<in> set polls2. \<exists>t. cl = CallDescribeTaskResult t"
      by (elim exE conjE)
    define cs where "cs = c1 # map CallDisassociateAddress eipIds @ polls
                 @ CallReleaseAddresses eipIds # polls2
                 @ replicate n (CallTerminateInstances (rollback_ids p))"
    have 1: "trace (snd (Rollback K H P p)) = trace p @ cs"
      by (simp add: tr t1 cs_def)
    have 2: "\<forall>ids. CallTerminateInstances ids \<in> set cs \<longrightarrow> ids = rollback_ids p"
      using sub all2 c1 by (auto simp: cs_def)
    show ?thesis
      by (rule exI [of _ cs]) (intro conjI 1 2)
  qed
qed

lemma runInstances_rollback:
  assumes "RunInstances P (trace p) (runInstances_request K p num master password) = Inr ids"
      and "int (length ids) = num"
  shows "set ids \<subseteq> set (rollback_ids (snd (runInstances K P num master password p)))"
proof
  fix i
  assume i: "i \<in> set ids"
  from assms have mm: "m (snd (runInstances K P num master password p))
      = store_launched K master (m p) ids"
    by (simp add: runInstances_def Let_def)
  from i have "Load (store_launched K master (m p) ids) i = Some (launched_node K master i)"
    by (simp add: Load_store_launched)
  moreover have "RollBack (launched_node K master i)"
    by (simp add: launched_node_def)
  ultimately have "i \<in> set (map fst (filter (\<lambda>e. RollBack (snd e)) (store_launched K master (m p) ids)))"
    by (rule rollback_Load)
  then show "i \<in> set (rollback_ids (snd (runInstances K P num master password p)))"
    by (simp only: rollback_ids_def mm)
qed

text \<open>
  C9. Assembling the status and syncing the cluster's instances never add an instance
  to those marked for rollback: the marked ids after are among the marked ids before,
  so a node that was not in the registry is stored unmarked (and a sync leaves every
  marked entry exactly as it was). A successful launch marks each id it stores. A
  rollback asks for the termination of the marked ids and of nothing else.
\<close>

theorem discovery_never_marks_rollback:
  "(assembleInstanceStatus K H P sshv up key p = Some (r, p') \<longrightarrow>
      set (rollback_ids p') \<subseteq> set (rollback_ids p)
      \<and> (\<forall>k v'. Load (m p) k = None \<and> Load (m p') k = Some v' \<longrightarrow> \<not> RollBack v'))
 \<and> (syncClusterInstance K P sshv p = Some (r2, p2) \<longrightarrow>
      set (rollback_ids p2) \<subseteq> set (rollback_ids p)
      \<and> (\<forall>k v'. Load (m p2) k = Some v' \<and> RollBack v' \<longrightarrow> Load (m p) k = Some v'))
 \<and> (RunInstances P (trace p) (runInstances_request K p num master password) = Inr ids
      \<and> int (length ids) = num \<longrightarrow>
      set ids \<subseteq> set (rollback_ids (snd (runInstances K P num master password p))))
 \<and> (\<exists>cs. trace (snd (Rollback K H P p)) = trace p @ cs
        \<and> (\<forall>ids'. CallTerminateInstances ids' \<in> set cs \<longrightarrow> ids' = rollback_ids p))"
proof (intro conjI impI)
  assume a: "assembleInstanceStatus K H P sshv up key p = Some (r, p')"
  from assembleInstanceStatus_rollback [OF a]
  show "set (rollback_ids p') \<subseteq> set (rollback_ids p)" .
  then show "\<forall>k v'. Load (m p) k = None \<and> Load (m p') k = Some v' \<longrightarrow> \<not> RollBack v'"
    using added_not_rollback by blast
next
  assume s: "syncClusterInstance K P sshv p = Some (r2, p2)"
  from syncClusterInstance_rollback [OF s]
  show "set (rollback_ids p2) \<subseteq> set (rollback_ids p)" .
  show "\<forall>k v'. Load (m p2) k = Some v' \<and> RollBack v' \<longrightarrow> Load (m p) k = Some v'"
    using syncClusterInstance_untouched [OF s] by blast
next
  assume "RunInstances P (trace p) (runInstances_request K p num master password) = Inr ids
      \<and> int (length ids) = num"
  then show "set ids \<subseteq> set (rollback_ids (snd (runInstances K P num master password p)))"
    using runInstances_rollback by blast
next
  show "\<exists>cs. trace (snd (Rollback K H P p)) = trace p @ cs
        \<and> (\<forall>ids'. CallTerminateInstances ids' \<in> set cs \<longrightarrow> ids' = rollback_ids p)"
    by (rule Rollback_terminates)
qed

theorem discovery_never_marks_rollback_witness:
  "Load (m p_on) ''ins-1'' = None
   \<and> (\<exists>p'. assembleInstanceStatus K0 quiet_host (P_cluster (Inr []) ''SUCCESS'') empty_ssh False [] p_on
              = Some (None, p')
          \<and> (\<exists>v'. Load (m p') ''ins-1'' = Some v' \<and> \<not> RollBack v'))"
proof -
  define v where "v = zero_node\<lparr>Master := is_master K0 (ins_Tags ins_1),
                                RollBack := False,
                                InstanceID := InstanceId ins_1,
                                InstanceStatus := StatusRunning K0,
                                InternalIPAddress := PrivateIpAddresses ins_1,
                                EipAllocationIds := [],
                                PublicIPAddress := Some (PublicIpAddresses ins_1)\<rparr>"
  define q where "q = (record_call found_call p_on)\<lparr>m := Store (m (record_call found_call p_on)) ''ins-1'' v\<rparr>"
  define p' where "p' = syncNodeStatusWithInstance (Some empty_ssh) q"
  have new: "Load (m p_on) ''ins-1'' = None"
    by (simp add: p_on_def NewProvider_def Load_def)
  have noeip: "\<not> PublicIPAssignedEIP (record_call found_call p_on)"
    by (simp add: record_call_def p_on_def NewProvider_def)
  have mm: "m p_on = []"
    by (simp add: p_on_def NewProvider_def)
  have loop: "assemble_loop K0 quiet_host (P_cluster (Inr []) ''SUCCESS'') empty_ssh False [] [ins_1]
                (record_call found_call p_on) = (None, q)"
    using noeip by (simp add: eips_of_instance_def mm Load_def q_def v_def ins_1_def)
  have a: "assembleInstanceStatus K0 quiet_host (P_cluster (Inr []) ''SUCCESS'') empty_ssh False [] p_on
              = Some (None, p')"
    by (simp add: assembleInstanceStatus_def describeInstances_cluster found_call_def [symmetric]
          loop p'_def del: assemble_loop.simps)
  have now: "Load (m p') ''ins-1'' = Some v"
    by (simp add: p'_def syncNodeStatusWithInstance_m q_def mm Load_def)
  from discovery_never_marks_rollback
         [where K = K0 and H = quiet_host and P = "P_cluster (Inr []) ''SUCCESS''" and sshv = empty_ssh
            and up = False and key = "[]" and p = p_on and r = None and p' = p',
          THEN conjunct1, rule_format, OF a]
  have "\<forall>k v'. Load (m p_on) k = None \<and> Load (m p') k = Some v' \<longrightarrow> \<not> RollBack v'"
    by (rule conjunct2)
  with new now have "\<not> RollBack v"
    by blast
  with now have "Load (m p') ''ins-1'' = Some v \<and> \<not> RollBack v"
    by (rule conjI)
  then have "\<exists>v'. Load (m p') ''ins-1'' = Some v' \<and> \<not> RollBack v'"
    by (rule exI [where x = v])
  with a have "assembleInstanceStatus K0 quiet_host (P_cluster (Inr []) ''SUCCESS'') empty_ssh False [] p_on
              = Some (None, p')
          \<and> (\<exists>v'. Load (m p') ''ins-1'' = Some v' \<and> \<not> RollBack v')"
    by (rule conjI)
  then have "\<exists>p'. assembleInstanceStatus K0 quiet_host (P_cluster (Inr []) ''SUCCESS'') empty_ssh False [] p_on
              = Some (None, p')
          \<and> (\<exists>v'. Load (m p') ''ins-1'' = Some v' \<and> \<not> RollBack v')"
    by (rule exI [where x = p'])
  with new show ?thesis
    by (rule conjI)
qed

section \<open>The default network\<close>

text \<open>
  When the provider returns a network and then a subnet, both are taken as they come and
  nothing is created.
\<close>

lemma configNetwork_reuse:
  assumes "DescribeVpcs P (trace p) vpc_filters = Inr (v # vs)"
      and "DescribeSubnets P (trace p @ [CallDescribeVpcs vpc_filters]) [] subnet_filters
             = Inr (Some (s # ss))"
  shows "configNetwork P p
           = (None, p\<lparr>VpcID := VpcId v, SubnetID := SubnetId s,
                       trace := trace p @ [CallDescribeVpcs vpc_filters,
                                           CallDescribeSubnets [] subnet_filters]\<rparr>)"
  using assms by (simp add: configNetwork_def Let_def record_call_def)

text \<open>
  C7. The network \<open>vpc-1\<close> is found and reused. The subnet is looked up by name and tag
  alone, so the subnet \<open>subnet-9\<close> of the other network \<open>vpc-2\<close> is taken for it, and no
  subnet is created in \<open>vpc-1\<close>.
\<close>

theorem configNetwork_takes_subnet_of_other_network:
  "configNetwork (P_cloud two_networks subnet_of_second) NewProvider
     = (None, NewProvider\<lparr>VpcID := ''vpc-1'', SubnetID := ''subnet-9'',
                            trace := [CallDescribeVpcs vpc_filters,
                                      CallDescribeSubnets [] subnet_filters]\<rparr>)
   \<and> map cs_vpc (filter (\<lambda>s. cs_id s = ''subnet-9'') subnet_of_second) = [''vpc-2'']
   \<and> filter (\<lambda>s. cs_vpc s = ''vpc-1'') subnet_of_second = []"
proof -
  have v: "DescribeVpcs (P_cloud two_networks subnet_of_second) (trace NewProvider) vpc_filters
             = Inr [\<lparr>VpcId = ''vpc-1''\<rparr>, \<lparr>VpcId = ''vpc-2''\<rparr>]"
    by (simp add: P_cloud_def two_networks_def vpc_filters_def vpc_matches_def vpcName_def)
  have s: "DescribeSubnets (P_cloud two_networks subnet_of_second)
             (trace NewProvider @ [CallDescribeVpcs vpc_filters]) [] subnet_filters
             = Inr (Some [\<lparr>SubnetId = ''subnet-9'', sub_VpcId = ''vpc-2'',
                           sub_CidrBlock = ''192.168.3.0/24''\<rparr>])"
    by (simp add: P_cloud_def subnet_of_second_def subnet_filters_def subnet_matches_def subnetName_def)
  have t: "trace NewProvider = []"
    by (simp add: NewProvider_def)
  from configNetwork_reuse [OF v s] show ?thesis
    by (simp add: t subnet_of_second_def)
qed

section \<open>The result of the preflight validation\<close>


lemma instance_filters_p_c [simp]: "instance_filters K (p\<lparr>p_c := b\<rparr>) = instance_filters K p"
  by (simp add: instance_filters_def)












end
